theory Spec2Isabelle
  imports Main
begin

section \<open>The in-memory filesystem engine of \<^verbatim>\<open>filesystems/memory.py\<close>\<close>

text \<open>
  The engine keeps a tree of Python objects: every \<^verbatim>\<open>_Directory\<close> owns a persistent
  map from names to the nodes stored in it, every \<^verbatim>\<open>_File\<close> refers to a
  \<^verbatim>\<open>_BytesIOIsTerrible\<close> buffer, every \<^verbatim>\<open>_Link\<close> stores its source path and looks the
  source up again, from the root, whenever it is dereferenced.

  The embedding keeps the stored tree as a value (\<open>entry\<close>), the buffers in an explicit
  store (handles returned by \<^verbatim>\<open>open_file\<close> alias the buffer of the file), and the
  objects that path resolution hands out as values of type \<open>node\<close>. A reference to a
  \<^verbatim>\<open>_Directory\<close> object (the \<^verbatim>\<open>_parent\<close> field of every node) is the list of names that
  leads to that directory from the root: every stored object sits in exactly one
  directory under its own name, and nodes never outlive the operation that resolved them.
\<close>

subsection \<open>Paths, errors and modes\<close>

type_synonym name = string
type_synonym path = "name list"
type_synonym loc = "name list"
type_synonym bytes = string

text \<open>
  Modelled from the spec: the external \<^verbatim>\<open>Path\<close> type, of which the engine uses the
  ordered \<^verbatim>\<open>segments\<close> (a path is the list of its segments, the root the empty list) and
  \<^verbatim>\<open>parent()\<close>, the path without its last segment.
\<close>

definition parent :: "path \<Rightarrow> path" where
  "parent p = butlast p"

text \<open>
  The exceptions the engine raises (module \<^verbatim>\<open>exceptions\<close>, each bound to a path), the
  \<^verbatim>\<open>KeyError\<close> of \<^verbatim>\<open>pmap.remove\<close> on a missing key, and the two errors of the
  \<^verbatim>\<open>io\<close> objects.
\<close>

datatype error =
    FileNotFound path
  | FileExists path
  | NotADirectory path
  | IsADirectory path
  | DirectoryNotEmpty path
  | PermissionError path
  | NotASymlink path
  | SymbolicLoop path
  | InvalidMode string
  | KeyError name
  | ValueError
  | TypeError

datatype activity = Read | Write | Append

record FileMode =
  m_activity :: activity
  m_text :: bool

definition mode_read :: "FileMode \<Rightarrow> bool" where
  "mode_read m = (m_activity m = Read)"

definition mode_write :: "FileMode \<Rightarrow> bool" where
  "mode_write m = (m_activity m = Write)"

text \<open>
  Modelled from the spec: \<^verbatim>\<open>common._parse_mode\<close>, which is not part of the engine's
  file. One activity letter of r, w, a (r when omitted), optionally followed by one of
  b, t (text when omitted); every other string is \<^verbatim>\<open>InvalidMode\<close>.
\<close>

fun parse_activity :: "char \<Rightarrow> activity option" where
  "parse_activity c =
     (if c = CHR ''r'' then Some Read
      else if c = CHR ''w'' then Some Write
      else if c = CHR ''a'' then Some Append
      else None)"

fun parse_representation :: "string \<Rightarrow> bool option" where
  "parse_representation [] = Some True"
| "parse_representation [c] =
     (if c = CHR ''t'' then Some True else if c = CHR ''b'' then Some False else None)"
| "parse_representation (c # d # cs) = None"

definition parse_mode :: "string \<Rightarrow> error + FileMode" where
  "parse_mode s =
     (case s of
        [] \<Rightarrow> Inr \<lparr>m_activity = Read, m_text = True\<rparr>
      | c # cs \<Rightarrow>
          (case parse_activity c of
             Some a \<Rightarrow>
               (case parse_representation cs of
                  Some t \<Rightarrow> Inr \<lparr>m_activity = a, m_text = t\<rparr>
                | None \<Rightarrow> Inl (InvalidMode s))
           | None \<Rightarrow>
               (case parse_representation s of
                  Some t \<Rightarrow> Inr \<lparr>m_activity = Read, m_text = t\<rparr>
                | None \<Rightarrow> Inl (InvalidMode s))))"

subsection \<open>The stored tree and the buffers\<close>

text \<open>
  What a directory's \<^verbatim>\<open>_children\<close> map holds: directories with their own children, files
  with the address of their current buffer, links with their stored source path.
\<close>

datatype entry =
    Directory "name \<Rightarrow> entry option"
  | File nat
  | Link path

text \<open>
  \<^verbatim>\<open>_BytesIOIsTerrible\<close>: a \<^verbatim>\<open>BytesIO\<close> (value, position, closed flag) that keeps its
  value readable after \<^verbatim>\<open>close\<close> in \<^verbatim>\<open>_hereismyvalue\<close>.
\<close>

record bytesio =
  b_value :: bytes
  b_pos :: nat
  b_closed :: bool
  b_hereismyvalue :: bytes

record state =
  s_root :: "name \<Rightarrow> entry option"
  s_bufs :: "nat \<Rightarrow> bytesio"
  s_next :: nat

text \<open>\<^verbatim>\<open>_State()\<close>: a root directory without children, no buffer allocated yet.\<close>

definition initial :: state where
  "initial = \<lparr>s_root = Map.empty,
     s_bufs = (\<lambda>_. \<lparr>b_value = [], b_pos = 0, b_closed = False, b_hereismyvalue = []\<rparr>),
     s_next = 0\<rparr>"

text \<open>The children of the directory a reference names, if it names one.\<close>

fun dir_at :: "(name \<Rightarrow> entry option) \<Rightarrow> loc \<Rightarrow> (name \<Rightarrow> entry option) option" where
  "dir_at cs [] = Some cs"
| "dir_at cs (d # ds) =
     (case cs d of Some (Directory sub) \<Rightarrow> dir_at sub ds | _ \<Rightarrow> None)"

text \<open>
  Rebinding the \<^verbatim>\<open>_children\<close> field of the directory a reference names. A reference
  that names no directory leaves the tree as it is; resolution never produces one
  (lemma \<open>walk_valid\<close> below).
\<close>

fun modify_at ::
  "((name \<Rightarrow> entry option) \<Rightarrow> (name \<Rightarrow> entry option)) \<Rightarrow> loc \<Rightarrow>
   (name \<Rightarrow> entry option) \<Rightarrow> (name \<Rightarrow> entry option)" where
  "modify_at f [] cs = f cs"
| "modify_at f (d # ds) cs =
     (case cs d of
        Some (Directory sub) \<Rightarrow> cs(d \<mapsto> Directory (modify_at f ds sub))
      | _ \<Rightarrow> cs)"

text \<open>\<^verbatim>\<open>_Directory.__setitem__\<close>: \<^verbatim>\<open>self._children = self._children.set(name, node)\<close>.\<close>

definition setitem :: "loc \<Rightarrow> name \<Rightarrow> entry \<Rightarrow> state \<Rightarrow> state" where
  "setitem l nm e st = st\<lparr>s_root := modify_at (\<lambda>cs. cs(nm \<mapsto> e)) l (s_root st)\<rparr>"

text \<open>
  \<^verbatim>\<open>_Directory.__delitem__\<close>: \<^verbatim>\<open>self._children = self._children.remove(name)\<close>, where
  \<^verbatim>\<open>remove\<close> raises \<^verbatim>\<open>KeyError\<close> on a name that is not a key, before anything is
  assigned.
\<close>

definition delitem :: "loc \<Rightarrow> name \<Rightarrow> state \<Rightarrow> (error + unit) \<times> state" where
  "delitem l nm st =
     (case dir_at (s_root st) l of
        None \<Rightarrow> (Inl (KeyError nm), st)
      | Some cs \<Rightarrow>
          (if cs nm = None then (Inl (KeyError nm), st)
           else (Inr (), st\<lparr>s_root := modify_at (\<lambda>cs. cs(nm := None)) l (s_root st)\<rparr>)))"

subsection \<open>Nodes and path resolution\<close>

text \<open>
  The six classes of node objects, with the fields the classes have. A directory's and a
  file's node carry the current value of \<^verbatim>\<open>_children\<close> and \<^verbatim>\<open>_contents\<close>; the name and
  parent of a directory are the last name of its reference and the rest (the root is its
  own parent and has the empty name).
\<close>

datatype node =
    NDirectory loc "name \<Rightarrow> entry option"
  | NFile name loc nat
  | NFileChild loc
  | NDirectoryChild name loc
  | NLink name loc path
  | NNoSuchEntry

fun node_of :: "loc \<Rightarrow> name \<Rightarrow> entry \<Rightarrow> node" where
  "node_of l s (Directory cs) = NDirectory (l @ [s]) cs"
| "node_of l s (File b) = NFile s l b"
| "node_of l s (Link src) = NLink s l src"

definition root_node :: "state \<Rightarrow> node" where
  "root_node st = NDirectory [] (s_root st)"

text \<open>
  \<^verbatim>\<open>__getitem__\<close> of the six classes and the loop of \<^verbatim>\<open>_State.__getitem__\<close>.
  \<^verbatim>\<open>_Link.__getitem__\<close> is \<^verbatim>\<open>self._entry_at_source()[name]\<close>, and
  \<^verbatim>\<open>_entry_at_source\<close> is \<^verbatim>\<open>lambda: state[source]\<close>: a whole resolution from the root,
  then an index into its result, which may be a link again. The first argument bounds
  the depth of these nested dereferences; \<open>None\<close> is a recursion deeper than the bound.
\<close>

fun getitem :: "nat \<Rightarrow> state \<Rightarrow> node \<Rightarrow> name \<Rightarrow> node option"
  and walk :: "nat \<Rightarrow> state \<Rightarrow> node \<Rightarrow> path \<Rightarrow> node option" where
  "getitem n st (NDirectory l cs) s =
     Some (case cs s of None \<Rightarrow> NDirectoryChild s l | Some e \<Rightarrow> node_of l s e)"
| "getitem n st (NFile nm l b) s = Some (NFileChild l)"
| "getitem n st (NFileChild l) s = Some (NFileChild l)"
| "getitem n st (NDirectoryChild nm l) s = Some NNoSuchEntry"
| "getitem n st NNoSuchEntry s = Some NNoSuchEntry"
| "getitem 0 st (NLink nm l src) s = None"
| "getitem (Suc n) st (NLink nm l src) s =
     (case walk n st (NDirectory [] (s_root st)) src of
        None \<Rightarrow> None
      | Some nd \<Rightarrow> getitem n st nd s)"
| "walk n st nd [] = Some nd"
| "walk n st nd (s # ss) =
     (case getitem n st nd s of None \<Rightarrow> None | Some nd' \<Rightarrow> walk n st nd' ss)"

text \<open>\<^verbatim>\<open>_State.__getitem__\<close>: start at the root, index once for every segment.\<close>

definition state_getitem :: "nat \<Rightarrow> state \<Rightarrow> path \<Rightarrow> node option" where
  "state_getitem n st p = walk n st (root_node st) p"

subsection \<open>Buffers and file objects\<close>

text \<open>
  The methods of \<^verbatim>\<open>BytesIO\<close> the engine and its callers use. Nothing seeks, so the
  position never lies beyond the end of the value.
\<close>

definition bytesio_write :: "bytes \<Rightarrow> bytesio \<Rightarrow> error + bytesio" where
  "bytesio_write d b =
     (if b_closed b then Inl ValueError
      else Inr (b\<lparr>b_value := take (b_pos b) (b_value b) @ d @ drop (b_pos b + length d) (b_value b),
                  b_pos := b_pos b + length d\<rparr>))"

definition bytesio_read :: "bytesio \<Rightarrow> error + bytes \<times> bytesio" where
  "bytesio_read b =
     (if b_closed b then Inl ValueError
      else Inr (drop (b_pos b) (b_value b), b\<lparr>b_pos := max (b_pos b) (length (b_value b))\<rparr>))"

text \<open>
  \<^verbatim>\<open>_BytesIOIsTerrible.close\<close>: \<^verbatim>\<open>self._hereismyvalue = self.getvalue()\<close> (which
  raises on a closed buffer), then the buffer is closed.
\<close>

definition bytesio_close :: "bytesio \<Rightarrow> error + bytesio" where
  "bytesio_close b =
     (if b_closed b then Inl ValueError
      else Inr (b\<lparr>b_hereismyvalue := b_value b, b_closed := True\<rparr>))"

text \<open>The property \<^verbatim>\<open>_BytesIOIsTerrible.bytes\<close>.\<close>

definition bytesio_bytes :: "bytesio \<Rightarrow> bytes" where
  "bytesio_bytes b = (if b_closed b then b_hereismyvalue b else b_value b)"

text \<open>\<^verbatim>\<open>_BytesIOIsTerrible(initial)\<close>: a new buffer object at the next free address.\<close>

definition new_bytesio :: "bytes \<Rightarrow> state \<Rightarrow> nat \<times> state" where
  "new_bytesio init st =
     (s_next st,
      st\<lparr>s_bufs := (s_bufs st)
            (s_next st := \<lparr>b_value = init, b_pos = 0, b_closed = False, b_hereismyvalue = []\<rparr>),
         s_next := Suc (s_next st)\<rparr>)"

text \<open>
  What \<^verbatim>\<open>open_file\<close> returns: the buffer itself in binary mode, a \<^verbatim>\<open>TextIOWrapper\<close>
  around it in text mode. The wrapper keeps what was written to it until it is flushed.
\<close>

record handle =
  h_file :: nat
  h_text :: bool
  h_pending :: bytes

definition mk_handle :: "nat \<Rightarrow> FileMode \<Rightarrow> handle" where
  "mk_handle f m = \<lparr>h_file = f, h_text = m_text m, h_pending = []\<rparr>"

text \<open>\<^verbatim>\<open>_File.open_file\<close>; the file object is the entry \<open>nm\<close> of the directory \<open>l\<close>.\<close>

definition File_open_file ::
  "name \<Rightarrow> loc \<Rightarrow> nat \<Rightarrow> FileMode \<Rightarrow> state \<Rightarrow> (error + handle) \<times> state" where
  "File_open_file nm l b m st =
     (if mode_read m then
        (let (f, st1) = new_bytesio (bytesio_bytes (s_bufs st b)) st
         in (Inr (mk_handle f m), st1))
      else if mode_write m then
        (let (f, st1) = new_bytesio [] st;
             st2 = setitem l nm (File f) st1
         in (Inr (mk_handle f m), st2))
      else
        (let original = s_bufs st b;
             (f, st1) = new_bytesio [] st;
             st2 = setitem l nm (File f) st1
         in (case bytesio_write (bytesio_bytes original) (s_bufs st2 f) of
               Inl e \<Rightarrow> (Inl e, st2)
             | Inr b' \<Rightarrow> (Inr (mk_handle f m), st2\<lparr>s_bufs := (s_bufs st2)(f := b')\<rparr>))))"

text \<open>
  \<^verbatim>\<open>_File(name=..., parent=...)\<close> stored under its name in the parent: the attribute
  factory allocates the file's first buffer.
\<close>

definition new_File :: "name \<Rightarrow> loc \<Rightarrow> state \<Rightarrow> nat \<times> state" where
  "new_File nm l st =
     (let (b, st1) = new_bytesio [] st in (b, setitem l nm (File b) st1))"

subsection \<open>The operations of the node classes\<close>

text \<open>
  One function for every method, one equation for every class. An operation returns
  what it raised or returned together with the state it left behind. Only the methods of
  \<^verbatim>\<open>_Link\<close> that go through \<^verbatim>\<open>_entry_at_source\<close> need the bound on dereferences.
\<close>

fun node_create_directory :: "state \<Rightarrow> node \<Rightarrow> path \<Rightarrow> (error + unit) \<times> state" where
  "node_create_directory st (NDirectory l cs) p = (Inl (FileExists p), st)"
| "node_create_directory st (NFile nm l b) p = (Inl (FileExists p), st)"
| "node_create_directory st (NFileChild l) p = (Inl (NotADirectory (parent p)), st)"
| "node_create_directory st (NDirectoryChild nm l) p =
     (Inr (), setitem l nm (Directory Map.empty) st)"
| "node_create_directory st (NLink nm l src) p = (Inl (FileExists p), st)"
| "node_create_directory st NNoSuchEntry p = (Inl (FileNotFound (parent p)), st)"

fun node_list_directory ::
  "nat \<Rightarrow> state \<Rightarrow> node \<Rightarrow> path \<Rightarrow> ((error + name set) \<times> state) option" where
  "node_list_directory n st (NDirectory l cs) p = Some (Inr (dom cs), st)"
| "node_list_directory n st (NFile nm l b) p = Some (Inl (NotADirectory p), st)"
| "node_list_directory n st (NFileChild l) p = Some (Inl (NotADirectory p), st)"
| "node_list_directory n st (NDirectoryChild nm l) p = Some (Inl (FileNotFound p), st)"
| "node_list_directory 0 st (NLink nm l src) p = None"
| "node_list_directory (Suc n) st (NLink nm l src) p =
     (case state_getitem n st src of
        None \<Rightarrow> None
      | Some nd \<Rightarrow> node_list_directory n st nd p)"
| "node_list_directory n st NNoSuchEntry p = Some (Inl (FileNotFound p), st)"

text \<open>
  \<^verbatim>\<open>_Directory.remove_empty_directory\<close> deletes \<^verbatim>\<open>self._name\<close> from
  \<^verbatim>\<open>self._parent\<close>; for the root these are the empty name and the root itself.
\<close>

fun node_remove_empty_directory :: "state \<Rightarrow> node \<Rightarrow> path \<Rightarrow> (error + unit) \<times> state" where
  "node_remove_empty_directory st (NDirectory l cs) p =
     (if cs \<noteq> Map.empty then (Inl (DirectoryNotEmpty p), st)
      else delitem (butlast l) (if l = [] then [] else last l) st)"
| "node_remove_empty_directory st (NFile nm l b) p = (Inl (NotADirectory p), st)"
| "node_remove_empty_directory st (NFileChild l) p = (Inl (NotADirectory p), st)"
| "node_remove_empty_directory st (NDirectoryChild nm l) p = (Inl (FileNotFound p), st)"
| "node_remove_empty_directory st (NLink nm l src) p = (Inl (NotADirectory p), st)"
| "node_remove_empty_directory st NNoSuchEntry p = (Inl (FileNotFound p), st)"

text \<open>
  \<^verbatim>\<open>_DirectoryChild.create_file\<close> opens the new file with
  \<^verbatim>\<open>common._FileMode(activity="w")\<close>. Modelled from the spec: the representation of a
  mode that names none is text.
\<close>

fun node_create_file :: "state \<Rightarrow> node \<Rightarrow> path \<Rightarrow> (error + handle) \<times> state" where
  "node_create_file st (NDirectory l cs) p = (Inl (FileExists p), st)"
| "node_create_file st (NFile nm l b) p = (Inl (FileExists p), st)"
| "node_create_file st (NFileChild l) p = (Inl (NotADirectory p), st)"
| "node_create_file st (NDirectoryChild nm l) p =
     (let (b, st1) = new_File nm l st
      in File_open_file nm l b \<lparr>m_activity = Write, m_text = True\<rparr> st1)"
| "node_create_file st (NLink nm l src) p = (Inl (FileExists p), st)"
| "node_create_file st NNoSuchEntry p = (Inl (FileNotFound p), st)"

fun node_open_file ::
  "nat \<Rightarrow> state \<Rightarrow> node \<Rightarrow> path \<Rightarrow> FileMode \<Rightarrow> ((error + handle) \<times> state) option" where
  "node_open_file n st (NDirectory l cs) p m = Some (Inl (IsADirectory p), st)"
| "node_open_file n st (NFile nm l b) p m = Some (File_open_file nm l b m st)"
| "node_open_file n st (NFileChild l) p m = Some (Inl (NotADirectory p), st)"
| "node_open_file n st (NDirectoryChild nm l) p m =
     Some (if mode_read m then (Inl (FileNotFound p), st)
           else (let (b, st1) = new_File nm l st in File_open_file nm l b m st1))"
| "node_open_file 0 st (NLink nm l src) p m = None"
| "node_open_file (Suc n) st (NLink nm l src) p m =
     (case state_getitem n st src of
        None \<Rightarrow> None
      | Some nd \<Rightarrow> node_open_file n st nd p m)"
| "node_open_file n st NNoSuchEntry p m = Some (Inl (FileNotFound p), st)"

fun node_remove_file :: "state \<Rightarrow> node \<Rightarrow> path \<Rightarrow> (error + unit) \<times> state" where
  "node_remove_file st (NDirectory l cs) p = (Inl (PermissionError p), st)"
| "node_remove_file st (NFile nm l b) p = delitem l nm st"
| "node_remove_file st (NFileChild l) p = (Inl (NotADirectory p), st)"
| "node_remove_file st (NDirectoryChild nm l) p = (Inl (FileNotFound p), st)"
| "node_remove_file st (NLink nm l src) p = delitem l nm st"
| "node_remove_file st NNoSuchEntry p = (Inl (FileNotFound p), st)"

fun node_link :: "state \<Rightarrow> node \<Rightarrow> path \<Rightarrow> path \<Rightarrow> (error + unit) \<times> state" where
  "node_link st (NDirectory l cs) source to = (Inl (FileExists to), st)"
| "node_link st (NFile nm l b) source to = (Inl (FileExists to), st)"
| "node_link st (NFileChild l) source to = (Inl (NotADirectory (parent to)), st)"
| "node_link st (NDirectoryChild nm l) source to = (Inr (), setitem l nm (Link source) st)"
| "node_link st (NLink nm l src) source to = (Inl (FileExists to), st)"
| "node_link st NNoSuchEntry source to = (Inl (FileNotFound (parent to)), st)"

fun node_readlink :: "state \<Rightarrow> node \<Rightarrow> path \<Rightarrow> (error + path) \<times> state" where
  "node_readlink st (NDirectory l cs) p = (Inl (NotASymlink p), st)"
| "node_readlink st (NFile nm l b) p = (Inl (NotASymlink p), st)"
| "node_readlink st (NFileChild l) p = (Inl (NotADirectory p), st)"
| "node_readlink st (NDirectoryChild nm l) p = (Inl (FileNotFound p), st)"
| "node_readlink st (NLink nm l src) p = (Inr src, st)"
| "node_readlink st NNoSuchEntry p = (Inl (FileNotFound p), st)"

fun node_exists :: "nat \<Rightarrow> state \<Rightarrow> node \<Rightarrow> bool option" where
  "node_exists n st (NDirectory l cs) = Some True"
| "node_exists n st (NFile nm l b) = Some True"
| "node_exists n st (NFileChild l) = Some False"
| "node_exists n st (NDirectoryChild nm l) = Some False"
| "node_exists 0 st (NLink nm l src) = None"
| "node_exists (Suc n) st (NLink nm l src) =
     (case state_getitem n st src of None \<Rightarrow> None | Some nd \<Rightarrow> node_exists n st nd)"
| "node_exists n st NNoSuchEntry = Some False"

subsection \<open>The operations of \<^verbatim>\<open>_State\<close>\<close>

text \<open>
  Every operation resolves its path and hands the operation to the node found.
  \<open>None\<close> is a chain of dereferences deeper than the bound \<open>n\<close>.
\<close>

definition create_directory :: "nat \<Rightarrow> state \<Rightarrow> path \<Rightarrow> ((error + unit) \<times> state) option" where
  "create_directory n st p = map_option (\<lambda>nd. node_create_directory st nd p) (state_getitem n st p)"

definition list_directory :: "nat \<Rightarrow> state \<Rightarrow> path \<Rightarrow> ((error + name set) \<times> state) option" where
  "list_directory n st p =
     (case state_getitem n st p of None \<Rightarrow> None | Some nd \<Rightarrow> node_list_directory n st nd p)"

definition remove_empty_directory ::
  "nat \<Rightarrow> state \<Rightarrow> path \<Rightarrow> ((error + unit) \<times> state) option" where
  "remove_empty_directory n st p =
     map_option (\<lambda>nd. node_remove_empty_directory st nd p) (state_getitem n st p)"

definition create_file :: "nat \<Rightarrow> state \<Rightarrow> path \<Rightarrow> ((error + handle) \<times> state) option" where
  "create_file n st p = map_option (\<lambda>nd. node_create_file st nd p) (state_getitem n st p)"

text \<open>\<^verbatim>\<open>_State.open_file\<close> parses the mode string before it touches the tree.\<close>

definition open_file ::
  "nat \<Rightarrow> state \<Rightarrow> path \<Rightarrow> string \<Rightarrow> ((error + handle) \<times> state) option" where
  "open_file n st p mode =
     (case parse_mode mode of
        Inl e \<Rightarrow> Some (Inl e, st)
      | Inr m \<Rightarrow>
          (case state_getitem n st p of
             None \<Rightarrow> None
           | Some nd \<Rightarrow> node_open_file n st nd p m))"

definition remove_file :: "nat \<Rightarrow> state \<Rightarrow> path \<Rightarrow> ((error + unit) \<times> state) option" where
  "remove_file n st p = map_option (\<lambda>nd. node_remove_file st nd p) (state_getitem n st p)"

definition link :: "nat \<Rightarrow> state \<Rightarrow> path \<Rightarrow> path \<Rightarrow> ((error + unit) \<times> state) option" where
  "link n st source to = map_option (\<lambda>nd. node_link st nd source to) (state_getitem n st to)"

definition readlink :: "nat \<Rightarrow> state \<Rightarrow> path \<Rightarrow> ((error + path) \<times> state) option" where
  "readlink n st p = map_option (\<lambda>nd. node_readlink st nd p) (state_getitem n st p)"

definition exists_path :: "nat \<Rightarrow> state \<Rightarrow> path \<Rightarrow> bool option" where
  "exists_path n st p =
     (case state_getitem n st p of None \<Rightarrow> None | Some nd \<Rightarrow> node_exists n st nd)"

text \<open>
  The table of \<^verbatim>\<open>FS()\<close>: the operations the engine offers that can change the tree or
  raise, as one datatype, and what each returns.
\<close>

datatype operation =
    CreateFile path
  | OpenFile path string
  | RemoveFile path
  | CreateDirectory path
  | ListDirectory path
  | RemoveEmptyDirectory path
  | LinkTo path path
  | ReadLink path

datatype returned = Nothing | Opened handle | Names "name set" | Target path

definition returning ::
  "('a \<Rightarrow> returned) \<Rightarrow> ((error + 'a) \<times> state) option \<Rightarrow> ((error + returned) \<times> state) option" where
  "returning f r = map_option (\<lambda>(v, st). (map_sum id f v, st)) r"

fun run :: "nat \<Rightarrow> state \<Rightarrow> operation \<Rightarrow> ((error + returned) \<times> state) option" where
  "run n st (CreateFile p) = returning Opened (create_file n st p)"
| "run n st (OpenFile p mode) = returning Opened (open_file n st p mode)"
| "run n st (RemoveFile p) = returning (\<lambda>_. Nothing) (remove_file n st p)"
| "run n st (CreateDirectory p) = returning (\<lambda>_. Nothing) (create_directory n st p)"
| "run n st (ListDirectory p) = returning Names (list_directory n st p)"
| "run n st (RemoveEmptyDirectory p) = returning (\<lambda>_. Nothing) (remove_empty_directory n st p)"
| "run n st (LinkTo source to) = returning (\<lambda>_. Nothing) (link n st source to)"
| "run n st (ReadLink p) = returning Target (readlink n st p)"

text \<open>\<^verbatim>\<open>is_link\<close> of the six classes: true for a \<^verbatim>\<open>_Link\<close> only.\<close>

fun node_is_link :: "node \<Rightarrow> bool" where
  "node_is_link (NLink nm l src) = True"
| "node_is_link nd = False"

subsection \<open>Reading the tree\<close>

text \<open>
  A node refers to something of the tree when the directory it names as its parent exists
  and holds, under the node's name, what the node says (nothing at all for a
  \<^verbatim>\<open>_DirectoryChild\<close>).
\<close>

fun valid_node :: "state \<Rightarrow> node \<Rightarrow> bool" where
  "valid_node st (NDirectory l cs) = (dir_at (s_root st) l = Some cs)"
| "valid_node st (NFile nm l b) =
     (case dir_at (s_root st) l of None \<Rightarrow> False | Some cs \<Rightarrow> cs nm = Some (File b))"
| "valid_node st (NFileChild l) = (dir_at (s_root st) l \<noteq> None)"
| "valid_node st (NDirectoryChild nm l) =
     (case dir_at (s_root st) l of None \<Rightarrow> False | Some cs \<Rightarrow> cs nm = None)"
| "valid_node st (NLink nm l src) =
     (case dir_at (s_root st) l of None \<Rightarrow> False | Some cs \<Rightarrow> cs nm = Some (Link src))"
| "valid_node st NNoSuchEntry = True"

text \<open>
  A directory's mapping as Python sees it, from names to objects: which names are bound,
  and to which directory, file (with its buffer) or link (with its source). The children
  of a bound directory are that directory's own mapping, not part of this one.
\<close>

datatype kind = KDirectory | KFile nat | KLink path

fun kind_of :: "entry \<Rightarrow> kind" where
  "kind_of (Directory cs) = KDirectory"
| "kind_of (File b) = KFile b"
| "kind_of (Link src) = KLink src"

definition children_at ::
  "(name \<Rightarrow> entry option) \<Rightarrow> loc \<Rightarrow> (name \<Rightarrow> kind option) option" where
  "children_at root l = map_option (\<lambda>cs k. map_option kind_of (cs k)) (dir_at root l)"

subsection \<open>Writing to and reading from a handle\<close>

text \<open>
  What a caller does with the object \<^verbatim>\<open>open_file\<close> returned. Binary handles are the
  \<^verbatim>\<open>BytesIO\<close> itself and take and give bytes; text handles are a \<^verbatim>\<open>TextIOWrapper\<close>
  and take and give text. What the wrapper makes of text on its way to the buffer (the
  platform's encoding, after line ends became the platform's separator) and of bytes on
  their way back (decoding, then universal newlines) is a parameter here: \<open>enc\<close> and
  \<open>dec\<close>. The wrapper hands what was written to the buffer when it is flushed, at the
  latest when it is closed.
\<close>

datatype 't payload = Bytes bytes | Text 't

fun is_text :: "'t payload \<Rightarrow> bool" where
  "is_text (Bytes d) = False"
| "is_text (Text t) = True"

fun payload_bytes :: "('t \<Rightarrow> bytes) \<Rightarrow> 't payload \<Rightarrow> bytes" where
  "payload_bytes enc (Bytes d) = d"
| "payload_bytes enc (Text t) = enc t"

definition set_buf :: "nat \<Rightarrow> bytesio \<Rightarrow> state \<Rightarrow> state" where
  "set_buf f b st = st\<lparr>s_bufs := (s_bufs st)(f := b)\<rparr>"

definition TextIOWrapper_flush :: "handle \<Rightarrow> state \<Rightarrow> (error + handle) \<times> state" where
  "TextIOWrapper_flush h st =
     (case bytesio_write (h_pending h) (s_bufs st (h_file h)) of
        Inl e \<Rightarrow> (Inl e, st)
      | Inr b \<Rightarrow> (Inr (h\<lparr>h_pending := []\<rparr>), set_buf (h_file h) b st))"

definition handle_write ::
  "('t \<Rightarrow> bytes) \<Rightarrow> handle \<Rightarrow> 't payload \<Rightarrow> state \<Rightarrow> (error + handle) \<times> state" where
  "handle_write enc h x st =
     (case x of
        Bytes d \<Rightarrow>
          (if h_text h then (Inl TypeError, st)
           else (case bytesio_write d (s_bufs st (h_file h)) of
                   Inl e \<Rightarrow> (Inl e, st)
                 | Inr b \<Rightarrow> (Inr h, set_buf (h_file h) b st)))
      | Text t \<Rightarrow>
          (if \<not> h_text h then (Inl TypeError, st)
           else if b_closed (s_bufs st (h_file h)) then (Inl ValueError, st)
           else (Inr (h\<lparr>h_pending := h_pending h @ enc t\<rparr>), st)))"

definition handle_read ::
  "(bytes \<Rightarrow> 't) \<Rightarrow> handle \<Rightarrow> state \<Rightarrow> (error + 't payload \<times> handle) \<times> state" where
  "handle_read dec h st =
     (if h_text h then
        (case TextIOWrapper_flush h st of
           (Inl e, st1) \<Rightarrow> (Inl e, st1)
         | (Inr h1, st1) \<Rightarrow>
             (case bytesio_read (s_bufs st1 (h_file h1)) of
                Inl e \<Rightarrow> (Inl e, st1)
              | Inr (d, b) \<Rightarrow> (Inr (Text (dec d), h1), set_buf (h_file h1) b st1)))
      else
        (case bytesio_read (s_bufs st (h_file h)) of
           Inl e \<Rightarrow> (Inl e, st)
         | Inr (d, b) \<Rightarrow> (Inr (Bytes d, h), set_buf (h_file h) b st)))"

text \<open>
  Closing a binary handle is \<^verbatim>\<open>_BytesIOIsTerrible.close\<close>; closing a text handle
  flushes and then closes the buffer, and does nothing when the buffer is closed already.
\<close>

definition handle_close :: "handle \<Rightarrow> state \<Rightarrow> (error + handle) \<times> state" where
  "handle_close h st =
     (if h_text h then
        (if b_closed (s_bufs st (h_file h)) then (Inr h, st)
         else
           (case TextIOWrapper_flush h st of
              (Inl e, st1) \<Rightarrow> (Inl e, st1)
            | (Inr h1, st1) \<Rightarrow>
                (case bytesio_close (s_bufs st1 (h_file h1)) of
                   Inl e \<Rightarrow> (Inl e, st1)
                 | Inr b \<Rightarrow> (Inr h1, set_buf (h_file h1) b st1))))
      else
        (case bytesio_close (s_bufs st (h_file h)) of
           Inl e \<Rightarrow> (Inl e, st)
         | Inr b \<Rightarrow> (Inr h, set_buf (h_file h) b st)))"

text \<open>
  The two uses the tests make of a handle:
  \<^verbatim>\<open>with fs.open(p, mode) as f: f.write(x)\<close> and
  \<^verbatim>\<open>with fs.open(p, mode) as g: g.read()\<close>.
\<close>

definition write_to ::
  "('t \<Rightarrow> bytes) \<Rightarrow> nat \<Rightarrow> state \<Rightarrow> path \<Rightarrow> string \<Rightarrow> 't payload \<Rightarrow>
   ((error + unit) \<times> state) option" where
  "write_to enc n st p mode x =
     (case open_file n st p mode of
        None \<Rightarrow> None
      | Some (Inl e, st1) \<Rightarrow> Some (Inl e, st1)
      | Some (Inr h, st1) \<Rightarrow>
          (case handle_write enc h x st1 of
             (Inl e, st2) \<Rightarrow> Some (Inl e, st2)
           | (Inr h', st2) \<Rightarrow>
               (case handle_close h' st2 of
                  (Inl e, st3) \<Rightarrow> Some (Inl e, st3)
                | (Inr h'', st3) \<Rightarrow> Some (Inr (), st3))))"

definition read_from ::
  "(bytes \<Rightarrow> 't) \<Rightarrow> nat \<Rightarrow> state \<Rightarrow> path \<Rightarrow> string \<Rightarrow>
   ((error + 't payload) \<times> state) option" where
  "read_from dec n st p mode =
     (case open_file n st p mode of
        None \<Rightarrow> None
      | Some (Inl e, st1) \<Rightarrow> Some (Inl e, st1)
      | Some (Inr h, st1) \<Rightarrow>
          (case handle_read dec h st1 of
             (Inl e, st2) \<Rightarrow> Some (Inl e, st2)
           | (Inr (x, h'), st2) \<Rightarrow>
               (case handle_close h' st2 of
                  (Inl e, st3) \<Rightarrow> Some (Inl e, st3)
                | (Inr h'', st3) \<Rightarrow> Some (Inr x, st3))))"

text \<open>The two in a row, and what comes back of the payload that went in.\<close>

definition write_then_read ::
  "('t \<Rightarrow> bytes) \<Rightarrow> (bytes \<Rightarrow> 't) \<Rightarrow> nat \<Rightarrow> state \<Rightarrow> path \<Rightarrow> string \<Rightarrow> string \<Rightarrow>
   't payload \<Rightarrow> (error + 't payload) option" where
  "write_then_read enc dec n st p wmode rmode x =
     (case write_to enc n st p wmode x of
        None \<Rightarrow> None
      | Some (Inl e, st1) \<Rightarrow> Some (Inl e)
      | Some (Inr u, st1) \<Rightarrow> map_option fst (read_from dec n st1 p rmode))"

fun read_back :: "('t \<Rightarrow> bytes) \<Rightarrow> (bytes \<Rightarrow> 't) \<Rightarrow> 't payload \<Rightarrow> 't payload" where
  "read_back enc dec (Bytes d) = Bytes d"
| "read_back enc dec (Text t) = Text (dec (enc t))"

text \<open>
  The wrapper \<^verbatim>\<open>_File.open_file\<close> builds is \<^verbatim>\<open>TextIOWrapper(file)\<close> with no further
  argument, so with Python's default newline handling: read in universal newlines mode,
  every \<^verbatim>\<open>\r\n\<close> and every other \<^verbatim>\<open>\r\<close> comes back as \<^verbatim>\<open>\n\<close>. For ASCII text where the
  line separator is \<^verbatim>\<open>\n\<close>, writing leaves the characters as they are.
\<close>

fun universal_newlines :: "string \<Rightarrow> string" where
  "universal_newlines [] = []"
| "universal_newlines [c] = [if c = CHR 0x0D then CHR 0x0A else c]"
| "universal_newlines (c # d # cs) =
     (if c = CHR 0x0D \<and> d = CHR 0x0A then CHR 0x0A # universal_newlines cs
      else if c = CHR 0x0D then CHR 0x0A # universal_newlines (d # cs)
      else c # universal_newlines (d # cs))"

definition default_encode :: "string \<Rightarrow> bytes" where
  "default_encode t = t"

definition default_decode :: "bytes \<Rightarrow> string" where
  "default_decode d = universal_newlines d"

text \<open>The bytes of the file a path resolves to: \<^verbatim>\<open>_contents.bytes\<close>.\<close>

definition contents :: "nat \<Rightarrow> state \<Rightarrow> path \<Rightarrow> bytes option" where
  "contents n st p =
     (case state_getitem n st p of
        Some (NFile nm l b) \<Rightarrow> Some (bytesio_bytes (s_bufs st b))
      | _ \<Rightarrow> None)"

text \<open>A buffer that is open, holds \<open>v\<close> and stands at its end.\<close>

definition fresh_with :: "bytes \<Rightarrow> bytesio" where
  "fresh_with v = \<lparr>b_value = v, b_pos = length v, b_closed = False, b_hereismyvalue = []\<rparr>"

subsection \<open>The tree after a file was bound to a name\<close>

text \<open>
  The node that resolution would hand out for the name \<open>s\<close> of the directory \<open>l\<close>, and
  the node that stands where a given node stood, read from another state.
\<close>

definition node_at :: "state \<Rightarrow> loc \<Rightarrow> name \<Rightarrow> node" where
  "node_at st l s =
     (case dir_at (s_root st) l of
        None \<Rightarrow> NNoSuchEntry
      | Some cs \<Rightarrow> (case cs s of None \<Rightarrow> NDirectoryChild s l | Some e \<Rightarrow> node_of l s e))"

fun refresh :: "state \<Rightarrow> node \<Rightarrow> node" where
  "refresh st (NDirectory l cs) =
     (case dir_at (s_root st) l of None \<Rightarrow> NNoSuchEntry | Some cs' \<Rightarrow> NDirectory l cs')"
| "refresh st (NFile nm l b) = node_at st l nm"
| "refresh st (NDirectoryChild nm l) = node_at st l nm"
| "refresh st (NLink nm l src) = node_at st l nm"
| "refresh st (NFileChild l) = NFileChild l"
| "refresh st NNoSuchEntry = NNoSuchEntry"

text \<open>
  The nodes from which resolution can still reach something: below a \<^verbatim>\<open>_FileChild\<close> or
  \<^verbatim>\<open>_NoSuchEntry\<close> there are only more of the same.
\<close>

fun live :: "node \<Rightarrow> bool" where
  "live (NFileChild l) = False"
| "live NNoSuchEntry = False"
| "live nd = True"

text \<open>
  The state \<open>st'\<close> has the tree of \<open>st\<close> but for the name \<open>nm\<close> of the directory \<open>l\<close>,
  which held no entry or a file and now holds the file with buffer \<open>f\<close>.
\<close>

definition rebinds_file :: "state \<Rightarrow> state \<Rightarrow> loc \<Rightarrow> name \<Rightarrow> nat \<Rightarrow> bool" where
  "rebinds_file st st' l nm f =
     (s_root st' = modify_at (\<lambda>cs. cs(nm \<mapsto> File f)) l (s_root st) \<and>
      (case dir_at (s_root st) l of
         None \<Rightarrow> False
       | Some cs \<Rightarrow> (case cs nm of None \<Rightarrow> True | Some (File b) \<Rightarrow> True | Some e \<Rightarrow> False)))"

subsection \<open>Chains of links\<close>

text \<open>
  Every path of the list resolves to a link whose stored source is the next path of the
  list, the last one's the path \<open>q\<close>.
\<close>

fun link_chain :: "nat \<Rightarrow> state \<Rightarrow> path list \<Rightarrow> path \<Rightarrow> bool" where
  "link_chain k st [] q = True"
| "link_chain k st (p # ps) q =
     ((case state_getitem k st p of
         Some (NLink nm l src) \<Rightarrow> src = (case ps of [] \<Rightarrow> q | p' # ps' \<Rightarrow> p')
       | _ \<Rightarrow> False) \<and>
      link_chain k st ps q)"

subsection \<open>Example states\<close>

text \<open>The state after \<^verbatim>\<open>create_file\<close> of the path \<^verbatim>\<open>/f\<close> on a new engine.\<close>

definition with_file :: state where
  "with_file = (case create_file 0 initial [''f''] of Some (r, st) \<Rightarrow> st | None \<Rightarrow> initial)"

text \<open>The state after \<^verbatim>\<open>link(source=/loop, to=/loop)\<close> on a new engine.\<close>

definition looped :: state where
  "looped =
     (case link 0 initial [''loop''] [''loop''] of Some (r, st) \<Rightarrow> st | None \<Rightarrow> initial)"

text \<open>
  The state after \<^verbatim>\<open>create_file(/f)\<close>, \<^verbatim>\<open>link(source=/f, to=/g)\<close> and
  \<^verbatim>\<open>link(source=/g, to=/h)\<close> on a new engine.
\<close>

definition chained :: state where
  "chained =
     (case create_file 0 initial [''f''] of
        Some (r1, st1) \<Rightarrow>
          (case link 0 st1 [''f''] [''g''] of
             Some (r2, st2) \<Rightarrow>
               (case link 0 st2 [''g''] [''h''] of Some (r3, st3) \<Rightarrow> st3 | None \<Rightarrow> initial)
           | None \<Rightarrow> initial)
      | None \<Rightarrow> initial)"

section \<open>Properties\<close>

subsection \<open>Resolution below nodes that do not exist\<close>

lemma walk_append:
  "walk n st nd (xs @ ys) =
     (case walk n st nd xs of None \<Rightarrow> None | Some nd' \<Rightarrow> walk n st nd' ys)"
  by (induction xs arbitrary: nd) (auto split: option.splits)

lemma walk_NoSuchEntry: "walk n st NNoSuchEntry ss = Some NNoSuchEntry"
  by (induction ss) auto

lemma walk_FileChild: "walk n st (NFileChild l) ss = Some (NFileChild l)"
  by (induction ss) auto

lemma walk_DirectoryChild:
  "ss \<noteq> [] \<Longrightarrow> walk n st (NDirectoryChild nm l) ss = Some NNoSuchEntry"
  by (cases ss) (auto simp: walk_NoSuchEntry)

lemma walk_File: "ss \<noteq> [] \<Longrightarrow> walk n st (NFile nm l b) ss = Some (NFileChild l)"
  by (cases ss) (auto simp: walk_FileChild)

lemma with_file_eval:
  "with_file = \<lparr>s_root = [''f'' \<mapsto> File 1],
     s_bufs = (s_bufs initial)
       (0 := \<lparr>b_value = [], b_pos = 0, b_closed = False, b_hereismyvalue = []\<rparr>,
        1 := \<lparr>b_value = [], b_pos = 0, b_closed = False, b_hereismyvalue = []\<rparr>),
     s_next = 2\<rparr>"
  by (simp add: with_file_def create_file_def state_getitem_def root_node_def initial_def
      new_File_def new_bytesio_def setitem_def File_open_file_def mode_read_def mode_write_def
      numeral_2_eq_2 fun_eq_iff)

text \<open>
  C3, as the code has it. \<^verbatim>\<open>_NoSuchEntry.create_file\<close> raises
  \<^verbatim>\<open>FileNotFound(path)\<close>: for every path that resolves to \<^verbatim>\<open>_NoSuchEntry\<close>,
  \<^verbatim>\<open>create_file\<close> fails with \<^verbatim>\<open>FileNotFound\<close> carrying the path itself (not its
  parent), and leaves the state as it was.
\<close>

theorem create_file_NoSuchEntry:
  "state_getitem n st p = Some NNoSuchEntry \<Longrightarrow>
   create_file n st p = Some (Inl (FileNotFound p), st)"
  by (simp add: create_file_def)

theorem create_file_NoSuchEntry_witness:
  "state_getitem 0 initial [''a'', ''b''] = Some NNoSuchEntry \<and>
   create_file 0 initial [''a'', ''b''] = Some (Inl (FileNotFound [''a'', ''b'']), initial)"
proof -
  have h: "state_getitem 0 initial [''a'', ''b''] = Some NNoSuchEntry"
    by (simp add: state_getitem_def root_node_def initial_def)
  show ?thesis using h create_file_NoSuchEntry [OF h] by simp
qed

text \<open>
  C3 as the claim states it fails: on a new engine the path \<^verbatim>\<open>/a/b\<close> resolves to
  \<^verbatim>\<open>_NoSuchEntry\<close>, and \<^verbatim>\<open>create_file\<close> raises \<^verbatim>\<open>FileNotFound\<close> with \<^verbatim>\<open>/a/b\<close>, which
  is not the parent \<^verbatim>\<open>/a\<close>.
\<close>

theorem create_file_names_parent_counterexample:
  "state_getitem 0 initial [''a'', ''b''] = Some NNoSuchEntry \<and>
   create_file 0 initial [''a'', ''b''] \<noteq>
     Some (Inl (FileNotFound (parent [''a'', ''b''])), initial) \<and>
   create_file 0 initial [''a'', ''b''] = Some (Inl (FileNotFound [''a'', ''b'']), initial)"
  by (simp add: create_file_def state_getitem_def root_node_def initial_def parent_def)

text \<open>
  C4, as the code has it. Indexing a \<^verbatim>\<open>_DirectoryChild\<close> or \<^verbatim>\<open>_NoSuchEntry\<close> gives
  \<^verbatim>\<open>_NoSuchEntry\<close>; indexing a \<^verbatim>\<open>_File\<close> gives a \<^verbatim>\<open>_FileChild\<close>, and indexing a
  \<^verbatim>\<open>_FileChild\<close> gives that \<^verbatim>\<open>_FileChild\<close> again. So every path one or more segments
  below a \<^verbatim>\<open>_DirectoryChild\<close> or \<^verbatim>\<open>_NoSuchEntry\<close> resolves to \<^verbatim>\<open>_NoSuchEntry\<close>, and every
  path one or more segments below a \<^verbatim>\<open>_File\<close> or \<^verbatim>\<open>_FileChild\<close> resolves to \<^verbatim>\<open>_FileChild\<close>.
\<close>

theorem phantom_descent:
  "getitem n st (NDirectoryChild nm l) s = Some NNoSuchEntry \<and>
   getitem n st NNoSuchEntry s = Some NNoSuchEntry \<and>
   getitem n st (NFile nm l b) s = Some (NFileChild l) \<and>
   getitem n st (NFileChild l) s = Some (NFileChild l) \<and>
   (ss \<noteq> [] \<and> (state_getitem n st p = Some (NDirectoryChild nm l) \<or>
                state_getitem n st p = Some NNoSuchEntry) \<longrightarrow>
      state_getitem n st (p @ ss) = Some NNoSuchEntry) \<and>
   (ss \<noteq> [] \<and> (state_getitem n st p = Some (NFile nm l b) \<or>
                state_getitem n st p = Some (NFileChild l)) \<longrightarrow>
      state_getitem n st (p @ ss) = Some (NFileChild l))"
  by (auto simp: state_getitem_def walk_append walk_NoSuchEntry walk_FileChild
      walk_DirectoryChild walk_File)

theorem phantom_descent_witness:
  "state_getitem 0 with_file [''a''] = Some (NDirectoryChild ''a'' []) \<and>
   state_getitem 0 with_file ([''a''] @ [''b'', ''c'']) = Some NNoSuchEntry \<and>
   state_getitem 0 with_file [''f''] = Some (NFile ''f'' [] 1) \<and>
   state_getitem 0 with_file ([''f''] @ [''x'', ''y'']) = Some (NFileChild [])"
proof -
  have a: "state_getitem 0 with_file [''a''] = Some (NDirectoryChild ''a'' [])"
    by (simp add: with_file_eval state_getitem_def root_node_def)
  have f: "state_getitem 0 with_file [''f''] = Some (NFile ''f'' [] 1)"
    by (simp add: with_file_eval state_getitem_def root_node_def)
  show ?thesis
    using a f
      phantom_descent [where n = 0 and st = with_file and nm = "''a''" and l = "[]"
        and ss = "[''b'', ''c'']" and p = "[''a'']"]
      phantom_descent [where n = 0 and st = with_file and nm = "''f''" and l = "[]" and b = 1
        and ss = "[''x'', ''y'']" and p = "[''f'']"]
    by simp
qed

text \<open>
  C4 as the claim states it fails for \<^verbatim>\<open>_FileChild\<close>: with a file at \<^verbatim>\<open>/f\<close>, the path
  \<^verbatim>\<open>/f/x\<close> resolves to a \<^verbatim>\<open>_FileChild\<close>, and the path \<^verbatim>\<open>/f/x/y\<close> below it resolves to
  the \<^verbatim>\<open>_FileChild\<close> again, not to \<^verbatim>\<open>_NoSuchEntry\<close>.
\<close>

theorem FileChild_descent_counterexample:
  "state_getitem 0 with_file [''f'', ''x''] = Some (NFileChild []) \<and>
   state_getitem 0 with_file [''f'', ''x'', ''y''] = Some (NFileChild []) \<and>
   state_getitem 0 with_file [''f'', ''x'', ''y''] \<noteq> Some NNoSuchEntry"
  by (simp add: with_file_eval state_getitem_def root_node_def)

subsection \<open>Operations on the root\<close>

text \<open>
  C9. The path without segments resolves to the root directory in every state, whatever
  the bound on dereferences. So the root exists, \<^verbatim>\<open>create_directory\<close> on it fails with
  \<^verbatim>\<open>FileExists\<close>, \<^verbatim>\<open>open_file\<close> with any mode string that parses fails with
  \<^verbatim>\<open>IsADirectory\<close>, \<^verbatim>\<open>remove_file\<close> fails with \<^verbatim>\<open>PermissionError\<close>, and each failure
  leaves the state as it was.
\<close>

theorem root_is_a_directory:
  "state_getitem n st [] = Some (NDirectory [] (s_root st)) \<and>
   exists_path n st [] = Some True \<and>
   create_directory n st [] = Some (Inl (FileExists []), st) \<and>
   (parse_mode mode = Inr m \<longrightarrow> open_file n st [] mode = Some (Inl (IsADirectory []), st)) \<and>
   remove_file n st [] = Some (Inl (PermissionError []), st)"
  by (simp add: state_getitem_def root_node_def exists_path_def create_directory_def
      open_file_def remove_file_def)

theorem root_is_a_directory_witness:
  "parse_mode ''wb'' = Inr \<lparr>m_activity = Write, m_text = False\<rparr> \<and>
   state_getitem 0 with_file [] = Some (NDirectory [] (s_root with_file)) \<and>
   exists_path 0 with_file [] = Some True \<and>
   create_directory 0 with_file [] = Some (Inl (FileExists []), with_file) \<and>
   open_file 0 with_file [] ''wb'' = Some (Inl (IsADirectory []), with_file) \<and>
   remove_file 0 with_file [] = Some (Inl (PermissionError []), with_file)"
proof -
  have h: "parse_mode ''wb'' = Inr \<lparr>m_activity = Write, m_text = False\<rparr>"
    by (simp add: parse_mode_def)
  show ?thesis
    using h root_is_a_directory [where n = 0 and st = with_file and mode = "''wb''"
        and m = "\<lparr>m_activity = Write, m_text = False\<rparr>"]
    by simp
qed

subsection \<open>Nothing changes before an operation raises\<close>

lemma File_open_file_returns: "\<exists>h st'. File_open_file nm l b m st = (Inr h, st')"
  by (auto simp: File_open_file_def new_bytesio_def setitem_def bytesio_write_def Let_def split: sum.splits)

lemma node_open_file_atomic:
  "node_open_file n st nd p m = Some (Inl e, st') \<Longrightarrow> st' = st"
proof (induction n st nd p m rule: node_open_file.induct)
  case (2 n st nm l b p m)
  then show ?case using File_open_file_returns[of nm l b m st] by auto
next
  case (4 n st nm l p m)
  then show ?case
    using File_open_file_returns[of nm l "fst (new_File nm l st)" m "snd (new_File nm l st)"]
    by (auto split: if_splits prod.splits)
qed (auto split: option.splits)

lemma node_list_directory_atomic:
  "node_list_directory n st nd p = Some (Inl e, st') \<Longrightarrow> st' = st"
  by (induction n st nd p rule: node_list_directory.induct) (auto split: option.splits)

lemma delitem_atomic: "delitem l nm st = (Inl e, st') \<Longrightarrow> st' = st"
  by (auto simp: delitem_def split: option.splits if_splits)

lemma node_create_file_atomic: "node_create_file st nd p = (Inl e, st') \<Longrightarrow> st' = st"
proof (cases nd)
  case (NDirectoryChild nm l)
  assume "node_create_file st nd p = (Inl e, st')"
  then show ?thesis
    using NDirectoryChild
      File_open_file_returns[of nm l "fst (new_File nm l st)" "\<lparr>m_activity = Write, m_text = True\<rparr>" "snd (new_File nm l st)"]
    by (auto split: prod.splits)
qed auto

lemma node_remove_file_atomic: "node_remove_file st nd p = (Inl e, st') \<Longrightarrow> st' = st"
  by (cases nd) (auto dest: delitem_atomic)

lemma node_remove_empty_directory_atomic:
  "node_remove_empty_directory st nd p = (Inl e, st') \<Longrightarrow> st' = st"
  by (cases nd) (auto dest: delitem_atomic split: if_splits)

lemma node_create_directory_atomic: "node_create_directory st nd p = (Inl e, st') \<Longrightarrow> st' = st"
  by (cases nd) auto

lemma node_link_atomic: "node_link st nd source to = (Inl e, st') \<Longrightarrow> st' = st"
  by (cases nd) auto

lemma node_readlink_atomic: "node_readlink st nd p = (Inl e, st') \<Longrightarrow> st' = st"
  by (cases nd) auto

lemma returning_Inl: "returning f r = Some (Inl e, st') \<Longrightarrow> r = Some (Inl e, st')"
  by (cases r) (auto simp: returning_def map_sum_def split: sum.splits)

text \<open>
  C8. Whenever an operation of the engine (\<^verbatim>\<open>create_file\<close>, \<^verbatim>\<open>open_file\<close>,
  \<^verbatim>\<open>remove_file\<close>, \<^verbatim>\<open>create_directory\<close>, \<^verbatim>\<open>list_directory\<close>,
  \<^verbatim>\<open>remove_empty_directory\<close>, \<^verbatim>\<open>link\<close>, \<^verbatim>\<open>readlink\<close>) raises, the state it leaves
  behind (the tree and every buffer) is the state it started from.
\<close>

theorem atomicity: "run n st op = Some (Inl e, st') \<Longrightarrow> st' = st"
proof (cases op)
  case (CreateFile p)
  assume "run n st op = Some (Inl e, st')"
  with CreateFile have "create_file n st p = Some (Inl e, st')"
    by (simp add: returning_Inl)
  then show ?thesis
    by (auto simp: create_file_def dest: node_create_file_atomic)
next
  case (OpenFile p mode)
  assume "run n st op = Some (Inl e, st')"
  with OpenFile have "open_file n st p mode = Some (Inl e, st')"
    by (simp add: returning_Inl)
  then show ?thesis
    by (auto simp: open_file_def split: sum.splits option.splits dest: node_open_file_atomic)
next
  case (RemoveFile p)
  assume "run n st op = Some (Inl e, st')"
  with RemoveFile have "remove_file n st p = Some (Inl e, st')"
    by (simp add: returning_Inl)
  then show ?thesis
    by (auto simp: remove_file_def dest: node_remove_file_atomic)
next
  case (CreateDirectory p)
  assume "run n st op = Some (Inl e, st')"
  with CreateDirectory have "create_directory n st p = Some (Inl e, st')"
    by (simp add: returning_Inl)
  then show ?thesis
    by (auto simp: create_directory_def dest: node_create_directory_atomic)
next
  case (ListDirectory p)
  assume "run n st op = Some (Inl e, st')"
  with ListDirectory have "list_directory n st p = Some (Inl e, st')"
    by (simp add: returning_Inl)
  then show ?thesis
    by (auto simp: list_directory_def split: option.splits dest: node_list_directory_atomic)
next
  case (RemoveEmptyDirectory p)
  assume "run n st op = Some (Inl e, st')"
  with RemoveEmptyDirectory have "remove_empty_directory n st p = Some (Inl e, st')"
    by (simp add: returning_Inl)
  then show ?thesis
    by (auto simp: remove_empty_directory_def dest: node_remove_empty_directory_atomic)
next
  case (LinkTo source to)
  assume "run n st op = Some (Inl e, st')"
  with LinkTo have "link n st source to = Some (Inl e, st')"
    by (simp add: returning_Inl)
  then show ?thesis
    by (auto simp: link_def dest: node_link_atomic)
next
  case (ReadLink p)
  assume "run n st op = Some (Inl e, st')"
  with ReadLink have "readlink n st p = Some (Inl e, st')"
    by (simp add: returning_Inl)
  then show ?thesis
    by (auto simp: readlink_def dest: node_readlink_atomic)
qed

theorem atomicity_witness:
  "run 0 initial (RemoveFile [''a'']) = Some (Inl (FileNotFound [''a'']), initial) \<and>
   run 0 initial (OpenFile [''a''] ''r'') = Some (Inl (FileNotFound [''a'']), initial) \<and>
   run 0 initial (OpenFile [''a''] ''rwb'') = Some (Inl (InvalidMode ''rwb''), initial) \<and>
   run 0 initial (RemoveEmptyDirectory []) = Some (Inl (KeyError []), initial)"
  using atomicity [of 0 initial "RemoveFile [''a'']" "FileNotFound [''a'']" initial]
  by (simp add: returning_def remove_file_def open_file_def remove_empty_directory_def
      state_getitem_def root_node_def initial_def parse_mode_def mode_read_def delitem_def)


subsection \<open>What resolution returns is in the tree\<close>

lemma dir_at_append:
  "dir_at root (l @ [s]) =
     (case dir_at root l of
        None \<Rightarrow> None
      | Some cs \<Rightarrow> (case cs s of Some (Directory sub) \<Rightarrow> Some sub | _ \<Rightarrow> None))"
  by (induction l arbitrary: root) (auto split: option.splits entry.splits)

lemma getitem_valid:
    "valid_node st nd \<Longrightarrow> getitem n st nd s = Some r \<Longrightarrow> valid_node st r"
  and walk_valid:
    "valid_node st nd' \<Longrightarrow> walk n st nd' ss = Some r' \<Longrightarrow> valid_node st r'"
proof (induction n st nd s and n st nd' ss arbitrary: r and r' rule: getitem_walk.induct)
  case (1 n st l cs s)
  then show ?case
    by (cases "cs s"; cases "the (cs s)") (auto simp: dir_at_append)
next
  case (7 n st nm l src s)
  then show ?case by (auto split: option.splits)
next
  case (9 n st nd s ss)
  then show ?case by (auto split: option.splits)
qed (auto split: option.splits)

lemma state_getitem_valid: "state_getitem n st p = Some r \<Longrightarrow> valid_node st r"
  unfolding state_getitem_def root_node_def by (rule walk_valid[rotated]) auto

subsection \<open>Removing a file or a link\<close>

lemma dir_at_modify_at:
  "dir_at root l = Some cs \<Longrightarrow> dir_at (modify_at f l root) l = Some (f cs)"
  by (induction l arbitrary: root) (auto split: option.splits entry.splits)

lemma children_at_remove:
  "dir_at root l = Some cs \<Longrightarrow> cs nm = Some e \<Longrightarrow> kind_of e \<noteq> KDirectory \<Longrightarrow> l' \<noteq> l \<Longrightarrow>
   children_at (modify_at (\<lambda>cs. cs(nm := None)) l root) l' = children_at root l'"
proof (induction l arbitrary: root l')
  case Nil
  then obtain k rest where l': "l' = k # rest" by (cases l') auto
  show ?case using Nil l' by (cases e) (auto simp: children_at_def split: option.splits entry.splits)
next
  case (Cons d ds)
  then obtain sub where sub: "root d = Some (Directory sub)" "dir_at sub ds = Some cs"
    by (auto split: option.splits entry.splits)
  show ?case
  proof (cases l')
    case Nil
    then show ?thesis using sub by (auto simp: children_at_def fun_eq_iff)
  next
    case (Cons k rest)
    show ?thesis
    proof (cases "k = d")
      case True
      then have "rest \<noteq> ds" using Cons Cons.prems by auto
      from Cons.IH[OF sub(2) Cons.prems(2,3) this] show ?thesis
        using sub Cons True by (auto simp: children_at_def)
    next
      case False
      then show ?thesis using sub Cons by (auto simp: children_at_def)
    qed
  qed
qed

text \<open>
  C10. When a path resolves to a file or to a link, \<^verbatim>\<open>remove_file\<close> succeeds and removes
  that one name from the mapping of the directory that holds it: the other names of that
  directory keep their entries, the mapping of every other directory is the same, and no
  buffer changes (the source of a removed link is not looked at).
\<close>

theorem remove_file_frame:
  assumes "state_getitem n st p = Some (NFile nm l b) \<or> state_getitem n st p = Some (NLink nm l src)"
  shows "\<exists>st' cs. remove_file n st p = Some (Inr (), st') \<and>
           s_bufs st' = s_bufs st \<and> s_next st' = s_next st \<and>
           dir_at (s_root st) l = Some cs \<and>
           dir_at (s_root st') l = Some (cs(nm := None)) \<and>
           (\<forall>l'. l' \<noteq> l \<longrightarrow> children_at (s_root st') l' = children_at (s_root st) l')"
proof -
  from assms obtain nd where nd: "state_getitem n st p = Some nd" "nd = NFile nm l b \<or> nd = NLink nm l src"
    by auto
  from state_getitem_valid[OF nd(1)] nd(2)
  obtain cs e where cs: "dir_at (s_root st) l = Some cs" "cs nm = Some e" "kind_of e \<noteq> KDirectory"
    by (auto split: option.splits)
  let ?st' = "st\<lparr>s_root := modify_at (\<lambda>cs. cs(nm := None)) l (s_root st)\<rparr>"
  have "remove_file n st p = Some (Inr (), ?st')"
    using nd cs by (auto simp: remove_file_def delitem_def)
  moreover have "dir_at (s_root ?st') l = Some (cs(nm := None))"
    using dir_at_modify_at[OF cs(1)] by simp
  moreover have "\<forall>l'. l' \<noteq> l \<longrightarrow> children_at (s_root ?st') l' = children_at (s_root st) l'"
    using children_at_remove[OF cs] by simp
  ultimately show ?thesis using cs(1) by auto
qed


theorem remove_file_frame_witness:
  "state_getitem 0 with_file [''f''] = Some (NFile ''f'' [] 1) \<and>
   remove_file 0 with_file [''f''] = Some (Inr (), with_file\<lparr>s_root := Map.empty\<rparr>) \<and>
   (\<exists>st' cs. remove_file 0 with_file [''f''] = Some (Inr (), st') \<and>
      s_bufs st' = s_bufs with_file \<and> s_next st' = s_next with_file \<and>
      dir_at (s_root with_file) [] = Some cs \<and>
      dir_at (s_root st') [] = Some (cs(''f'' := None)) \<and>
      (\<forall>l'. l' \<noteq> [] \<longrightarrow> children_at (s_root st') l' = children_at (s_root with_file) l'))"
proof -
  have h: "state_getitem 0 with_file [''f''] = Some (NFile ''f'' [] 1)"
    by (simp add: with_file_eval state_getitem_def root_node_def)
  have r: "remove_file 0 with_file [''f''] = Some (Inr (), with_file\<lparr>s_root := Map.empty\<rparr>)"
    by (simp add: remove_file_def h delitem_def) (simp add: with_file_eval fun_eq_iff)
  note t = remove_file_frame [where n = 0 and st = with_file and p = "[''f'']"
      and nm = "''f''" and l = "[]" and b = 1, OF disjI1 [OF h]]
  show ?thesis by (intro conjI h r t)
qed

subsection \<open>Links that lead back to themselves\<close>

lemma looped_eval: "looped = initial\<lparr>s_root := [''loop'' \<mapsto> Link [''loop'']]\<rparr>"
  by (simp add: looped_def link_def state_getitem_def root_node_def initial_def setitem_def fun_eq_iff)

lemma looped_root: "s_root looped = [''loop'' \<mapsto> Link [''loop'']]"
  by (simp add: looped_eval)

lemma getitem_mono:
    "getitem n st nd s = Some r \<Longrightarrow> getitem (n + k) st nd s = Some r"
  and walk_mono:
    "walk n st nd' ss = Some r' \<Longrightarrow> walk (n + k) st nd' ss = Some r'"
proof (induction n st nd s and n st nd' ss arbitrary: r and r' rule: getitem_walk.induct)
  case (7 n st nm l src s)
  then show ?case by (auto split: option.splits)
next
  case (9 n st nd s ss)
  then show ?case by (auto split: option.splits)
qed auto

lemma getitem_not_link:
  "\<not> node_is_link nd \<Longrightarrow> \<exists>r. getitem n st nd s = Some r"
  by (cases nd) auto

text \<open>
  Where no link has to be followed, resolution returns: for every path whose proper
  prefixes do not resolve to a link, in every state and already without any dereference
  (bound 0), and then it returns the same node under every bound. The last segment of a
  path is never dereferenced.
\<close>

lemma resolution_without_links:
  assumes "\<forall>k < length p. \<forall>nd. state_getitem 0 st (take k p) = Some nd \<longrightarrow> \<not> node_is_link nd"
  shows "\<exists>nd. \<forall>n. state_getitem n st p = Some nd"
  using assms
proof (induction p rule: rev_induct)
  case Nil
  then show ?case by (simp add: state_getitem_def)
next
  case (snoc s q)
  have "\<forall>k < length q. \<forall>nd. state_getitem 0 st (take k q) = Some nd \<longrightarrow> \<not> node_is_link nd"
  proof (intro allI impI)
    fix k nd assume "k < length q" "state_getitem 0 st (take k q) = Some nd"
    then show "\<not> node_is_link nd"
      using snoc.prems [rule_format, of k nd] by simp
  qed
  from snoc.IH [OF this] obtain nd where nd: "state_getitem 0 st q = Some nd" by auto
  have "\<not> node_is_link nd"
    using snoc.prems [rule_format, of "length q" nd] nd by simp
  from getitem_not_link [OF this] obtain r where r: "getitem 0 st nd s = Some r" by blast
  have 0: "state_getitem 0 st (q @ [s]) = Some r"
    using nd r by (simp add: state_getitem_def walk_append)
  have "state_getitem n st (q @ [s]) = Some r" for n
    using walk_mono [of 0 st "root_node st" "q @ [s]" r n] 0 by (simp add: state_getitem_def)
  then show ?case by auto
qed

lemma loop_getitem: "getitem n looped (NLink ''loop'' [] [''loop'']) s = None"
  by (induction n) (simp_all add: looped_root)

text \<open>
  C2 fails in the code. After \<^verbatim>\<open>link(source=/loop, to=/loop)\<close> the link reads back its
  own path, and resolving the path \<^verbatim>\<open>/loop/child\<close> below it returns under no bound on
  the depth of dereferences: \<^verbatim>\<open>_Link.__getitem__\<close> resolves \<^verbatim>\<open>/loop\<close> and indexes the
  link it finds, again and again. Resolution is not total there, and nothing in the
  engine turns the endless recursion into \<^verbatim>\<open>SymbolicLoop\<close>.
\<close>

theorem resolution_below_loop_never_returns:
  "readlink 0 looped [''loop''] = Some (Inr [''loop''], looped) \<and>
   (\<forall>n. state_getitem n looped [''loop'', ''child''] = None)"
  by (simp add: state_getitem_def root_node_def looped_root loop_getitem readlink_def)

lemma loop_open: "node_open_file n looped (NLink ''loop'' [] [''loop'']) p m = None"
  by (induction n) (simp_all add: looped_root state_getitem_def root_node_def)

text \<open>
  The engine has no bound of its own: \<^verbatim>\<open>open_file\<close> on the link that is its own source
  returns under no bound on the depth of dereferences.
\<close>

lemma open_file_loop_never_returns:
  "parse_mode mode = Inr m \<Longrightarrow> open_file n looped [''loop''] mode = None"
  by (simp add: open_file_def state_getitem_def root_node_def looped_root loop_open)




subsection \<open>Resolution after a file was bound to a name\<close>

lemma children_at_modify:
  "dir_at root l = Some cs \<Longrightarrow> \<forall>sub. cs nm \<noteq> Some (Directory sub) \<Longrightarrow>
   \<forall>sub. v \<noteq> Some (Directory sub) \<Longrightarrow> l' \<noteq> l \<Longrightarrow>
   children_at (modify_at (\<lambda>cs. cs(nm := v)) l root) l' = children_at root l'"
proof (induction l arbitrary: root l')
  case Nil
  then obtain k rest where l': "l' = k # rest" by (cases l') auto
  show ?case using Nil l' by (auto simp: children_at_def split: option.splits entry.splits)
next
  case (Cons d ds)
  then obtain sub where sub: "root d = Some (Directory sub)" "dir_at sub ds = Some cs"
    by (auto split: option.splits entry.splits)
  show ?case
  proof (cases l')
    case Nil
    then show ?thesis using sub by (auto simp: children_at_def fun_eq_iff)
  next
    case (Cons k rest)
    show ?thesis
    proof (cases "k = d")
      case True
      then have "rest \<noteq> ds" using Cons Cons.prems by auto
      from Cons.IH[OF sub(2) Cons.prems(2,3) this] show ?thesis
        using sub Cons True by (auto simp: children_at_def)
    next
      case False
      then show ?thesis using sub Cons by (auto simp: children_at_def)
    qed
  qed
qed

lemma children_at_lookup:
  "children_at root' l = children_at root l \<Longrightarrow> dir_at root l = Some cs \<Longrightarrow>
   \<exists>cs'. dir_at root' l = Some cs' \<and> (\<forall>k. map_option kind_of (cs' k) = map_option kind_of (cs k))"
  by (auto simp: children_at_def fun_eq_iff)

lemma kind_of_cases:
  "map_option kind_of x = map_option kind_of y \<Longrightarrow>
   (x = None \<and> y = None) \<or> (\<exists>b. x = Some (File b) \<and> y = Some (File b)) \<or>
   (\<exists>s. x = Some (Link s) \<and> y = Some (Link s)) \<or>
   (\<exists>c c'. x = Some (Directory c) \<and> y = Some (Directory c'))"
  apply (cases x; cases y; simp)
  subgoal for a b by (cases a; cases b; simp)
  done

lemma rebinds_fileD:
  assumes "rebinds_file st st' l nm f"
  obtains cs where "dir_at (s_root st) l = Some cs" "\<forall>sub. cs nm \<noteq> Some (Directory sub)"
    "\<forall>src. cs nm \<noteq> Some (Link src)"
    "s_root st' = modify_at (\<lambda>cs. cs(nm := Some (File f))) l (s_root st)"
    "dir_at (s_root st') l = Some (cs(nm \<mapsto> File f))"
  using assms
  by (auto simp: rebinds_file_def dir_at_modify_at split: option.splits entry.splits)

lemma dir_at_rebound:
  assumes "rebinds_file st st' l nm f" "dir_at (s_root st) l' = Some cs'"
  shows "\<exists>cs''. dir_at (s_root st') l' = Some cs'' \<and>
           (\<forall>k. (l' = l \<and> k = nm) \<or> map_option kind_of (cs'' k) = map_option kind_of (cs' k))"
proof -
  from assms(1) obtain cs where cs: "dir_at (s_root st) l = Some cs"
    "\<forall>sub. cs nm \<noteq> Some (Directory sub)"
    "s_root st' = modify_at (\<lambda>cs. cs(nm := Some (File f))) l (s_root st)"
    "dir_at (s_root st') l = Some (cs(nm \<mapsto> File f))"
    by (rule rebinds_fileD)
  show ?thesis
  proof (cases "l' = l")
    case True
    then show ?thesis using cs assms(2) by auto
  next
    case False
    have "children_at (s_root st') l' = children_at (s_root st) l'"
      unfolding cs(3) by (rule children_at_modify[OF cs(1,2) _ False]) simp
    from children_at_lookup[OF this assms(2)] show ?thesis by auto
  qed
qed

lemma refresh_Directory:
  assumes "rebinds_file st st' l nm f" "dir_at (s_root st) l' = Some cs'"
  shows "\<exists>cs''. refresh st' (NDirectory l' cs') = NDirectory l' cs'' \<and>
           dir_at (s_root st') l' = Some cs''"
  using dir_at_rebound[OF assms] by auto

lemma refresh_Link:
  assumes "rebinds_file st st' l nm f" "valid_node st (NLink nm' l' src)"
  shows "refresh st' (NLink nm' l' src) = NLink nm' l' src"
proof -
  from assms(2) obtain cs' where cs': "dir_at (s_root st) l' = Some cs'" "cs' nm' = Some (Link src)"
    by (auto split: option.splits)
  from assms(1) obtain cs where cs: "dir_at (s_root st) l = Some cs"
    "\<forall>src. cs nm \<noteq> Some (Link src)"
    by (rule rebinds_fileD)
  from dir_at_rebound[OF assms(1) cs'(1)] obtain cs'' where
    cs'': "dir_at (s_root st') l' = Some cs''"
    "(l' = l \<and> nm' = nm) \<or> map_option kind_of (cs'' nm') = map_option kind_of (cs' nm')"
    by blast
  have "\<not> (l' = l \<and> nm' = nm)" using cs cs' by auto
  with cs''(2) cs'(2) have "cs'' nm' = Some (Link src)"
    using kind_of_cases[of "cs'' nm'" "cs' nm'"] by auto
  then show ?thesis using cs''(1) by (simp add: node_at_def)
qed

lemma refresh_at:
  assumes "rebinds_file st st' l nm f"
  shows "refresh st' (NFile nm l b) = NFile nm l f"
    and "refresh st' (NDirectoryChild nm l) = NFile nm l f"
  using assms by (auto elim!: rebinds_fileD simp: node_at_def)

lemma getitem_live: "getitem n st nd s = Some r \<Longrightarrow> live r \<Longrightarrow> live nd"
  by (cases nd) auto

lemma walk_live: "walk n st nd ss = Some r \<Longrightarrow> live r \<Longrightarrow> live nd"
  by (cases nd) (auto simp: walk_FileChild walk_NoSuchEntry)

lemma getitem_Directory_rebound:
  assumes "rebinds_file st st' l nm f" "dir_at (s_root st) l' = Some cs'"
  shows "getitem n st' (refresh st' (NDirectory l' cs')) s =
         Some (refresh st' (case cs' s of None \<Rightarrow> NDirectoryChild s l' | Some e \<Rightarrow> node_of l' s e))"
proof -
  from assms(1) obtain cs where cs: "dir_at (s_root st) l = Some cs"
    "\<forall>sub. cs nm \<noteq> Some (Directory sub)"
    by (rule rebinds_fileD)
  from dir_at_rebound[OF assms] obtain cs'' where
    cs'': "dir_at (s_root st') l' = Some cs''"
    "\<And>k. (l' = l \<and> k = nm) \<or> map_option kind_of (cs'' k) = map_option kind_of (cs' k)"
    by blast
  have g: "getitem n st' (refresh st' (NDirectory l' cs')) s = Some (node_at st' l' s)"
    using cs''(1) by (simp add: node_at_def)
  show ?thesis
  proof (cases "cs' s")
    case None
    then show ?thesis using g by simp
  next
    case (Some e)
    show ?thesis
    proof (cases e)
      case (Directory sub)
      have "\<not> (l' = l \<and> s = nm)" using cs assms(2) Some Directory by auto
      with cs''(2)[of s] Some Directory obtain sub' where "cs'' s = Some (Directory sub')"
        using kind_of_cases[of "cs'' s" "cs' s"] by auto
      then show ?thesis using g Some Directory cs''(1)
        by (simp add: node_at_def dir_at_append)
    qed (use g Some in simp_all)
  qed
qed

text \<open>
  Binding a file to a name that held nothing or a file changes no resolution that ends
  in something of the tree, except that it ends at the new file where it ended at that name.
\<close>

lemma getitem_rebound:
    "rebinds_file st st' l nm f \<Longrightarrow> valid_node st nd \<Longrightarrow> getitem n st nd s = Some r \<Longrightarrow>
     live r \<Longrightarrow> getitem n st' (refresh st' nd) s = Some (refresh st' r)"
  and walk_rebound:
    "rebinds_file st st' l nm f \<Longrightarrow> valid_node st nd' \<Longrightarrow> walk n st nd' ss = Some r' \<Longrightarrow>
     live r' \<Longrightarrow> walk n st' (refresh st' nd') ss = Some (refresh st' r')"
proof (induction n st nd s and n st nd' ss arbitrary: r and r' rule: getitem_walk.induct)
  case (1 n st l' cs' s)
  then show ?case using getitem_Directory_rebound[of st st' l nm f l' cs' n s] by auto
next
  case (7 n st nm' l' src s)
  from "7.prems"(3) obtain nd2 where nd2: "walk n st (NDirectory [] (s_root st)) src = Some nd2"
    "getitem n st nd2 s = Some r" by (auto split: option.splits)
  have lnd2: "live nd2" using getitem_live[OF nd2(2) "7.prems"(4)] .
  have vroot: "valid_node st (NDirectory [] (s_root st))" by simp
  have vnd2: "valid_node st nd2" using walk_valid[OF vroot nd2(1)] .
  have "walk n st' (refresh st' (NDirectory [] (s_root st))) src = Some (refresh st' nd2)"
    using "7.IH"(1)[OF "7.prems"(1) vroot nd2(1) lnd2] .
  then have w: "walk n st' (NDirectory [] (s_root st')) src = Some (refresh st' nd2)" by simp
  have "getitem n st' (refresh st' nd2) s = Some (refresh st' r)"
    using "7.IH"(2)[OF nd2(1) "7.prems"(1) vnd2 nd2(2) "7.prems"(4)] .
  then show ?case using w refresh_Link[OF "7.prems"(1,2)] by simp
next
  case (9 n st nd s ss)
  from "9.prems"(3) obtain nd1 where nd1: "getitem n st nd s = Some nd1"
    "walk n st nd1 ss = Some r'" by (auto split: option.splits)
  have l1: "live nd1" using walk_live[OF nd1(2) "9.prems"(4)] .
  have v1: "valid_node st nd1" using getitem_valid[OF "9.prems"(2) nd1(1)] .
  have "getitem n st' (refresh st' nd) s = Some (refresh st' nd1)"
    using "9.IH"(1)[OF "9.prems"(1,2) nd1(1) l1] .
  moreover have "walk n st' (refresh st' nd1) ss = Some (refresh st' r')"
    using "9.IH"(2)[OF nd1(1) "9.prems"(1) v1 nd1(2) "9.prems"(4)] .
  ultimately show ?case by simp
qed auto

lemma getitem_root_cong:
    "s_root st2 = s_root st \<Longrightarrow> getitem n st2 nd s = getitem n st nd s"
  and walk_root_cong:
    "s_root st2 = s_root st \<Longrightarrow> walk n st2 nd' ss = walk n st nd' ss"
  by (induction n st nd s and n st nd' ss rule: getitem_walk.induct)
     (auto split: option.splits)

lemma state_getitem_root_cong:
  "s_root st2 = s_root st \<Longrightarrow> state_getitem n st2 p = state_getitem n st p"
  using walk_root_cong [of st2 st n "root_node st" p]
  by (simp add: state_getitem_def root_node_def)

lemma state_getitem_rebound:
  assumes "rebinds_file st st' l nm f"
    and "state_getitem n st p = Some nd" "nd = NFile nm l b \<or> nd = NDirectoryChild nm l"
  shows "state_getitem n st' p = Some (NFile nm l f)"
proof -
  have v: "valid_node st (root_node st)" by (simp add: root_node_def)
  have "live nd" using assms(3) by auto
  from walk_rebound[OF assms(1) v assms(2)[unfolded state_getitem_def] this]
  have "walk n st' (refresh st' (root_node st)) p = Some (refresh st' nd)" .
  moreover have "refresh st' (root_node st) = root_node st'" by (simp add: root_node_def)
  moreover have "refresh st' nd = NFile nm l f"
    using assms(3) refresh_at[OF assms(1)] by auto
  ultimately show ?thesis by (simp add: state_getitem_def)
qed

lemma state_getitem_rebound_Link:
  assumes "rebinds_file st st' l nm f"
    and "state_getitem n st p = Some (NLink nm' l' src)"
  shows "state_getitem n st' p = Some (NLink nm' l' src)"
proof -
  have v: "valid_node st (root_node st)" by (simp add: root_node_def)
  have vl: "valid_node st (NLink nm' l' src)" using state_getitem_valid[OF assms(2)] .
  from walk_rebound[OF assms(1) v assms(2)[unfolded state_getitem_def]]
  have "walk n st' (refresh st' (root_node st)) p = Some (refresh st' (NLink nm' l' src))" by simp
  moreover have "refresh st' (root_node st) = root_node st'" by (simp add: root_node_def)
  ultimately show ?thesis using refresh_Link[OF assms(1) vl] by (simp add: state_getitem_def)
qed

lemma modify_at_twice:
  "modify_at f l (modify_at g l root) = modify_at (\<lambda>cs. f (g cs)) l root"
proof (induction l arbitrary: root)
  case Nil
  show ?case by simp
next
  case (Cons d ds)
  show ?case
  proof (cases "root d")
    case None
    then show ?thesis by simp
  next
    case (Some e)
    show ?thesis
    proof (cases e)
      case (Directory sub)
      have "modify_at f ds (modify_at g ds sub) = modify_at (\<lambda>cs. f (g cs)) ds sub"
        by (rule Cons.IH)
      then show ?thesis using Some Directory by (simp add: fun_eq_iff)
    next
      case (File b)
      then show ?thesis using Some by simp
    next
      case (Link src)
      then show ?thesis using Some by simp
    qed
  qed
qed

subsection \<open>Opening, writing, closing, reading\<close>

lemma File_open_file_writing:
  assumes "valid_node st (NFile nm l b)" "\<not> mode_read m"
  shows "\<exists>f st1. File_open_file nm l b m st = (Inr (mk_handle f m), st1) \<and>
           rebinds_file st st1 l nm f \<and>
           s_bufs st1 f = fresh_with (if mode_write m then [] else bytesio_bytes (s_bufs st b))"
  using assms
  by (auto simp: File_open_file_def new_bytesio_def setitem_def rebinds_file_def fresh_with_def
      bytesio_write_def Let_def split: option.splits)

lemma new_File_rebinds:
  assumes "valid_node st (NDirectoryChild nm l)" "new_File nm l st = (b0, st1)"
  shows "rebinds_file st st1 l nm b0 \<and> valid_node st1 (NFile nm l b0) \<and>
         bytesio_bytes (s_bufs st1 b0) = []"
  using assms
  by (auto simp: new_File_def new_bytesio_def setitem_def rebinds_file_def bytesio_bytes_def
      dir_at_modify_at split: option.splits)

lemma rebinds_file_trans:
  assumes "rebinds_file st st1 l nm b0" "rebinds_file st1 st2 l nm f"
  shows "rebinds_file st st2 l nm f"
proof -
  have "(\<lambda>cs. (cs(nm \<mapsto> File b0))(nm \<mapsto> File f)) = (\<lambda>cs::name \<Rightarrow> entry option. cs(nm \<mapsto> File f))"
    by (simp add: fun_eq_iff)
  then show ?thesis using assms
    by (auto simp: rebinds_file_def modify_at_twice split: option.splits entry.splits)
qed

lemma node_open_file_writing:
  assumes "nd = NFile nm l b \<or> nd = NDirectoryChild nm l" "valid_node st nd" "\<not> mode_read m"
  shows "\<exists>f st1. node_open_file n st nd p m = Some (Inr (mk_handle f m), st1) \<and>
           rebinds_file st st1 l nm f \<and>
           s_bufs st1 f = fresh_with (if mode_write m then []
              else (case nd of NFile nm' l' b' \<Rightarrow> bytesio_bytes (s_bufs st b') | _ \<Rightarrow> []))"
proof (cases nd)
  case (NFile nm' l' b')
  then show ?thesis using assms File_open_file_writing[of st nm l b m] by auto
next
  case (NDirectoryChild nm' l')
  obtain b0 st0 where n: "new_File nm l st = (b0, st0)" by (cases "new_File nm l st")
  from new_File_rebinds[OF _ n] assms NDirectoryChild
  have r0: "rebinds_file st st0 l nm b0" "valid_node st0 (NFile nm l b0)"
    "bytesio_bytes (s_bufs st0 b0) = []" by auto
  from File_open_file_writing[OF r0(2) assms(3)] obtain f st1 where
    f: "File_open_file nm l b0 m st0 = (Inr (mk_handle f m), st1)"
    "rebinds_file st0 st1 l nm f"
    "s_bufs st1 f = fresh_with (if mode_write m then [] else bytesio_bytes (s_bufs st0 b0))"
    by blast
  have "node_open_file n st nd p m = Some (Inr (mk_handle f m), st1)"
    using NDirectoryChild assms n f(1) by simp
  moreover have "rebinds_file st st1 l nm f" using rebinds_file_trans[OF r0(1) f(2)] .
  ultimately show ?thesis using f(3) r0(3) NDirectoryChild by auto
qed (use assms in auto)

lemma write_and_close:
  assumes "s_bufs st1 f = fresh_with v" "m_text m = is_text x"
  shows "\<exists>h' st2 h'' st3. handle_write enc (mk_handle f m) x st1 = (Inr h', st2) \<and>
           handle_close h' st2 = (Inr h'', st3) \<and> s_root st3 = s_root st1 \<and>
           bytesio_bytes (s_bufs st3 f) = v @ payload_bytes enc x"
  using assms
  by (cases x)
     (auto simp: handle_write_def handle_close_def mk_handle_def fresh_with_def set_buf_def
       bytesio_write_def bytesio_close_def bytesio_bytes_def TextIOWrapper_flush_def)

lemma write_to_effect:
  assumes "state_getitem n st p = Some nd" "nd = NFile nm l b \<or> nd = NDirectoryChild nm l"
    and "parse_mode mode = Inr m" "\<not> mode_read m" "m_text m = is_text x"
  shows "\<exists>st' f. write_to enc n st p mode x = Some (Inr (), st') \<and>
           state_getitem n st' p = Some (NFile nm l f) \<and>
           bytesio_bytes (s_bufs st' f) =
             (if mode_write m then []
              else (case nd of NFile nm' l' b' \<Rightarrow> bytesio_bytes (s_bufs st b') | _ \<Rightarrow> []))
             @ payload_bytes enc x \<and>
           (\<forall>q nm' l' src. state_getitem n st q = Some (NLink nm' l' src) \<longrightarrow>
                state_getitem n st' q = Some (NLink nm' l' src))"
proof -
  let ?v = "if mode_write m then []
            else (case nd of NFile nm' l' b' \<Rightarrow> bytesio_bytes (s_bufs st b') | _ \<Rightarrow> [])"
  have v: "valid_node st nd" using state_getitem_valid[OF assms(1)] .
  from node_open_file_writing[OF assms(2) v assms(4), where n = n and p = p] obtain f st1 where
    o: "node_open_file n st nd p m = Some (Inr (mk_handle f m), st1)"
    "rebinds_file st st1 l nm f" "s_bufs st1 f = fresh_with ?v" by blast
  from write_and_close[OF o(3) assms(5), where enc = enc] obtain h' st2 h'' st3 where
    w: "handle_write enc (mk_handle f m) x st1 = (Inr h', st2)"
    "handle_close h' st2 = (Inr h'', st3)" "s_root st3 = s_root st1"
    "bytesio_bytes (s_bufs st3 f) = ?v @ payload_bytes enc x" by blast
  have "write_to enc n st p mode x = Some (Inr (), st3)"
    using assms(1,3) o(1) w(1,2) by (simp add: write_to_def open_file_def)
  moreover have "state_getitem n st3 p = Some (NFile nm l f)"
    using state_getitem_rebound[OF o(2) assms(1,2)] state_getitem_root_cong[OF w(3)] by simp
  moreover have "state_getitem n st3 q = Some (NLink nm' l' src)"
    if "state_getitem n st q = Some (NLink nm' l' src)" for q nm' l' src
    using state_getitem_rebound_Link[OF o(2) that] state_getitem_root_cong[OF w(3)] by simp
  ultimately show ?thesis using w(4) by blast
qed

lemma read_from_effect:
  assumes "state_getitem n st p = Some (NFile nm l f)" "parse_mode mode = Inr m" "mode_read m"
  shows "\<exists>st'. read_from dec n st p mode =
           Some (Inr (if m_text m then Text (dec (bytesio_bytes (s_bufs st f)))
                      else Bytes (bytesio_bytes (s_bufs st f))), st')"
  using assms
  by (auto simp: read_from_def open_file_def File_open_file_def new_bytesio_def mk_handle_def
      handle_read_def handle_close_def TextIOWrapper_flush_def bytesio_write_def bytesio_read_def
      bytesio_close_def set_buf_def Let_def)

lemma universal_newlines_id: "CHR 0x0D \<notin> set s \<Longrightarrow> universal_newlines s = s"
  by (induction s rule: universal_newlines.induct) auto

lemma write_then_read_result:
  assumes "state_getitem n st p = Some (NFile nm l b) \<or>
           state_getitem n st p = Some (NDirectoryChild nm l)"
    and "parse_mode wmode = Inr \<lparr>m_activity = Write, m_text = is_text x\<rparr>"
    and "parse_mode rmode = Inr \<lparr>m_activity = Read, m_text = is_text x\<rparr>"
  shows "write_then_read enc dec n st p wmode rmode x = Some (Inr (read_back enc dec x))"
proof -
  from assms(1) obtain nd where nd: "state_getitem n st p = Some nd"
    "nd = NFile nm l b \<or> nd = NDirectoryChild nm l" by auto
  from write_to_effect [OF nd assms(2), where x = x and enc = enc] obtain st1 f where
    w: "write_to enc n st p wmode x = Some (Inr (), st1)"
    "state_getitem n st1 p = Some (NFile nm l f)"
    "bytesio_bytes (s_bufs st1 f) = payload_bytes enc x"
    by (auto simp: mode_read_def mode_write_def)
  from read_from_effect [OF w(2) assms(3), where dec = dec] obtain st2 where
    "read_from dec n st1 p rmode =
       Some (Inr (if is_text x then Text (dec (bytesio_bytes (s_bufs st1 f)))
                  else Bytes (bytesio_bytes (s_bufs st1 f))), st2)"
    by (auto simp: mode_read_def)
  moreover have "(if is_text x then Text (dec (bytesio_bytes (s_bufs st1 f)))
                  else Bytes (bytesio_bytes (s_bufs st1 f))) = read_back enc dec x"
    using w(3) by (cases x) auto
  ultimately show ?thesis using w(1) by (simp add: write_then_read_def)
qed

text \<open>
  C5, as the code has it. Let the path resolve to a file or to an entry that does not
  exist in a directory that does. Opening it for writing (binary for bytes, text for
  text), writing the payload and closing, then opening it for reading in the same
  representation and reading, gives back bytes exactly as they were written, and gives
  back text as the reading wrapper decodes what the writing wrapper encoded. That is the
  text that was written whenever decoding restores it; with the default newline handling
  it does so for text without a carriage return.
\<close>

theorem round_trip:
  assumes "state_getitem n st p = Some (NFile nm l b) \<or>
           state_getitem n st p = Some (NDirectoryChild nm l)"
    and "parse_mode wmode = Inr \<lparr>m_activity = Write, m_text = is_text x\<rparr>"
    and "parse_mode rmode = Inr \<lparr>m_activity = Read, m_text = is_text x\<rparr>"
  shows "write_then_read enc dec n st p wmode rmode x = Some (Inr (read_back enc dec x)) \<and>
         ((\<forall>t. x = Text t \<longrightarrow> dec (enc t) = t) \<longrightarrow>
            write_then_read enc dec n st p wmode rmode x = Some (Inr x)) \<and>
         (CHR 0x0D \<notin> set s \<longrightarrow> default_decode (default_encode s) = s)"
proof -
  have r: "write_then_read enc dec n st p wmode rmode x = Some (Inr (read_back enc dec x))"
    using assms by (rule write_then_read_result)
  have "read_back enc dec x = x" if "\<forall>t. x = Text t \<longrightarrow> dec (enc t) = t"
    using that by (cases x) auto
  with r show ?thesis
    by (auto simp: default_decode_def default_encode_def universal_newlines_id)
qed

theorem round_trip_witness:
  "state_getitem 0 initial [''f''] = Some (NDirectoryChild ''f'' []) \<and>
   write_then_read default_encode default_decode 0 initial [''f''] ''w'' ''r''
     (Text (''ab'' @ [CHR 0x0A] @ ''cd'')) = Some (Inr (Text (''ab'' @ [CHR 0x0A] @ ''cd''))) \<and>
   write_then_read default_encode default_decode 0 initial [''f''] ''wb'' ''rb''
     (Bytes (''a'' @ [CHR 0x0D, CHR 0x0A, CHR 0xC3, CHR 0xA9])) =
     Some (Inr (Bytes (''a'' @ [CHR 0x0D, CHR 0x0A, CHR 0xC3, CHR 0xA9])))"
proof -
  have h1: "state_getitem 0 initial [''f''] = Some (NDirectoryChild ''f'' [])"
    by (simp add: state_getitem_def root_node_def initial_def)
  have t2: "parse_mode ''w'' =
      Inr \<lparr>m_activity = Write, m_text = is_text (Text (''ab'' @ [CHR 0x0A] @ ''cd''))\<rparr>"
    by (simp add: parse_mode_def)
  have t3: "parse_mode ''r'' =
      Inr \<lparr>m_activity = Read, m_text = is_text (Text (''ab'' @ [CHR 0x0A] @ ''cd''))\<rparr>"
    by (simp add: parse_mode_def)
  have b2: "parse_mode ''wb'' = Inr \<lparr>m_activity = Write,
      m_text = is_text (Bytes (''a'' @ [CHR 0x0D, CHR 0x0A, CHR 0xC3, CHR 0xA9]) :: string payload)\<rparr>"
    by (simp add: parse_mode_def)
  have b3: "parse_mode ''rb'' = Inr \<lparr>m_activity = Read,
      m_text = is_text (Bytes (''a'' @ [CHR 0x0D, CHR 0x0A, CHR 0xC3, CHR 0xA9]) :: string payload)\<rparr>"
    by (simp add: parse_mode_def)
  note t = round_trip [OF disjI2 [OF h1] t2 t3, where enc = default_encode
      and dec = default_decode and s = "''ab'' @ [CHR 0x0A] @ ''cd''"]
  note b = round_trip [OF disjI2 [OF h1] b2 b3, where enc = default_encode
      and dec = default_decode and s = "[]"]
  show ?thesis using h1 t b by (simp add: default_decode_def default_encode_def)
qed

text \<open>
  C5 as the claim states it fails for text with a carriage return: written in text mode
  to a new file \<^verbatim>\<open>/f\<close> and read back in text mode, \<^verbatim>\<open>a\r\nb\<close> comes back as
  \<^verbatim>\<open>a\nb\<close>.
\<close>

theorem carriage_return_counterexample:
  "state_getitem 0 initial [''f''] = Some (NDirectoryChild ''f'' []) \<and>
   write_then_read default_encode default_decode 0 initial [''f''] ''w'' ''r''
     (Text (''a'' @ [CHR 0x0D, CHR 0x0A] @ ''b'')) = Some (Inr (Text (''a'' @ [CHR 0x0A] @ ''b''))) \<and>
   Text (''a'' @ [CHR 0x0A] @ ''b'') \<noteq> Text (''a'' @ [CHR 0x0D, CHR 0x0A] @ ''b'')"
proof -
  have h1: "state_getitem 0 initial [''f''] = Some (NDirectoryChild ''f'' [])"
    by (simp add: state_getitem_def root_node_def initial_def)
  have t2: "parse_mode ''w'' =
      Inr \<lparr>m_activity = Write, m_text = is_text (Text (''a'' @ [CHR 0x0D, CHR 0x0A] @ ''b''))\<rparr>"
    by (simp add: parse_mode_def)
  have t3: "parse_mode ''r'' =
      Inr \<lparr>m_activity = Read, m_text = is_text (Text (''a'' @ [CHR 0x0D, CHR 0x0A] @ ''b''))\<rparr>"
    by (simp add: parse_mode_def)
  note t = write_then_read_result [OF disjI2 [OF h1] t2 t3, where enc = default_encode
      and dec = default_decode]
  show ?thesis using h1 t by (simp add: default_decode_def default_encode_def)
qed

text \<open>
  C6. Under the same condition on the path: writing \<open>x\<close> in write mode and closing, then
  writing \<open>y\<close> in append mode and closing, leaves the file with the bytes of \<open>x\<close>
  followed by the bytes of \<open>y\<close>, whichever of binary and text each of the two opens
  chose.
\<close>

theorem append_composition:
  assumes "state_getitem n st p = Some (NFile nm l b) \<or>
           state_getitem n st p = Some (NDirectoryChild nm l)"
    and "parse_mode wmode = Inr \<lparr>m_activity = Write, m_text = is_text x\<rparr>"
    and "parse_mode amode = Inr \<lparr>m_activity = Append, m_text = is_text y\<rparr>"
  shows "\<exists>st1 st2. write_to enc n st p wmode x = Some (Inr (), st1) \<and>
           write_to enc n st1 p amode y = Some (Inr (), st2) \<and>
           contents n st2 p = Some (payload_bytes enc x @ payload_bytes enc y)"
proof -
  from assms(1) obtain nd where nd: "state_getitem n st p = Some nd"
    "nd = NFile nm l b \<or> nd = NDirectoryChild nm l" by auto
  from write_to_effect[OF nd assms(2), where x = x and enc = enc] obtain st1 f where
    w: "write_to enc n st p wmode x = Some (Inr (), st1)"
    "state_getitem n st1 p = Some (NFile nm l f)"
    "bytesio_bytes (s_bufs st1 f) = payload_bytes enc x"
    by (auto simp: mode_read_def mode_write_def)
  from write_to_effect[OF w(2) _ assms(3), where b = f and x = y and enc = enc] obtain st2 g where
    a: "write_to enc n st1 p amode y = Some (Inr (), st2)"
    "state_getitem n st2 p = Some (NFile nm l g)"
    "bytesio_bytes (s_bufs st2 g) = bytesio_bytes (s_bufs st1 f) @ payload_bytes enc y"
    by (auto simp: mode_read_def mode_write_def)
  have "contents n st2 p = Some (payload_bytes enc x @ payload_bytes enc y)"
    using a(2,3) w(3) by (simp add: contents_def)
  with w(1) a(1) show ?thesis by blast
qed

theorem append_composition_witness:
  "state_getitem 0 with_file [''f''] = Some (NFile ''f'' [] 1) \<and>
   (\<exists>st1 st2. write_to (\<lambda>t. t) 0 with_file [''f''] ''wb'' (Bytes ''some '') = Some (Inr (), st1) \<and>
      write_to (\<lambda>t. t) 0 st1 [''f''] ''a'' (Text ''things!'') = Some (Inr (), st2) \<and>
      contents 0 st2 [''f''] = Some ''some things!'')"
proof -
  have h1: "state_getitem 0 with_file [''f''] = Some (NFile ''f'' [] 1)"
    by (simp add: with_file_eval state_getitem_def root_node_def)
  have h2: "parse_mode ''wb'' = Inr \<lparr>m_activity = Write, m_text = is_text (Bytes ''some '' :: string payload)\<rparr>"
    by (simp add: parse_mode_def)
  have h3: "parse_mode ''a'' = Inr \<lparr>m_activity = Append, m_text = is_text (Text ''things!'')\<rparr>"
    by (simp add: parse_mode_def)
  note t = append_composition [OF disjI1 [OF h1] h2 h3, where enc = "\<lambda>t. t"]
  show ?thesis using h1 t by simp
qed

subsection \<open>Chains of links\<close>

lemma state_getitem_mono:
  "state_getitem k st p = Some r \<Longrightarrow> state_getitem (k + j) st p = Some r"
  by (simp add: state_getitem_def walk_mono)

lemma link_chain_head:
  "link_chain k st (p # ps) q \<Longrightarrow>
   \<exists>nm l. state_getitem k st p = Some (NLink nm l (case ps of [] \<Rightarrow> q | p' # ps' \<Rightarrow> p'))"
  by (auto split: option.splits node.splits)

lemma link_chain_open:
  "link_chain k st (p # ps) q \<Longrightarrow> state_getitem k st q = Some (NFile nm l b) \<Longrightarrow>
   state_getitem k st p = Some (NLink nm' l' src) \<Longrightarrow>
   node_open_file (Suc (length ps) + k) st (NLink nm' l' src) pth m =
     Some (File_open_file nm l b m st)"
proof (induction ps arbitrary: p nm' l' src)
  case Nil
  then have "src = q" by simp
  moreover have "state_getitem (0 + k) st q = Some (NFile nm l b)" using Nil.prems(2) by simp
  ultimately show ?case by simp
next
  case (Cons p' ps')
  from Cons.prems(1,3) have src: "src = p'" by simp
  from Cons.prems(1) have ch: "link_chain k st (p' # ps') q" by simp
  from link_chain_head[OF ch] obtain nm2 l2 where
    p': "state_getitem k st p' = Some (NLink nm2 l2 (case ps' of [] \<Rightarrow> q | x # xs \<Rightarrow> x))" by blast
  have "state_getitem (k + Suc (length ps')) st p' =
      Some (NLink nm2 l2 (case ps' of [] \<Rightarrow> q | x # xs \<Rightarrow> x))"
    using state_getitem_mono[OF p'] .
  moreover have "node_open_file (Suc (length ps') + k) st
      (NLink nm2 l2 (case ps' of [] \<Rightarrow> q | x # xs \<Rightarrow> x)) pth m = Some (File_open_file nm l b m st)"
    using Cons.IH[OF ch Cons.prems(2) p'] .
  ultimately show ?case using src by (simp add: add.commute)
qed

lemma link_chain_open_file:
  assumes "link_chain k st ps q" "ps \<noteq> []" "state_getitem k st q = Some (NFile nm l b)"
  shows "open_file (length ps + k) st (hd ps) mode = open_file k st q mode"
proof (cases "parse_mode mode")
  case (Inl e)
  then show ?thesis by (simp add: open_file_def)
next
  case (Inr m)
  from assms(2) obtain p ps' where ps: "ps = p # ps'" by (cases ps) auto
  from link_chain_head[OF assms(1)[unfolded ps]] obtain nm' l' src where
    p: "state_getitem k st p = Some (NLink nm' l' src)" by blast
  have "state_getitem (k + Suc (length ps')) st p = Some (NLink nm' l' src)"
    using state_getitem_mono[OF p] .
  moreover have "node_open_file (Suc (length ps') + k) st (NLink nm' l' src) p m =
      Some (File_open_file nm l b m st)"
    using link_chain_open[OF assms(1)[unfolded ps] assms(3) p] .
  ultimately show ?thesis using Inr ps assms(3) by (simp add: open_file_def add.commute)
qed

lemma link_chain_readlink:
  "link_chain k st ps q \<Longrightarrow> i < length ps \<Longrightarrow>
   readlink k st (ps ! i) = Some (Inr ((ps @ [q]) ! Suc i), st)"
proof (induction ps arbitrary: i)
  case Nil
  then show ?case by simp
next
  case (Cons p ps)
  show ?case
  proof (cases i)
    case 0
    from link_chain_head[OF Cons.prems(1)] show ?thesis using 0
      by (cases ps) (auto simp: readlink_def)
  next
    case (Suc j)
    then show ?thesis using Cons by simp
  qed
qed

lemma link_chain_preserved:
  assumes "\<And>p nm l src. state_getitem k st p = Some (NLink nm l src) \<Longrightarrow>
             state_getitem k st' p = Some (NLink nm l src)"
  shows "link_chain k st ps q \<Longrightarrow> link_chain k st' ps q"
proof (induction ps)
  case Nil
  then show ?case by simp
next
  case (Cons p ps)
  from link_chain_head[OF Cons.prems] obtain nm l where
    "state_getitem k st p = Some (NLink nm l (case ps of [] \<Rightarrow> q | p' # ps' \<Rightarrow> p'))" by blast
  from assms[OF this] show ?case using Cons by simp
qed

lemma chained_root:
  "s_root chained = [''f'' \<mapsto> File 1, ''g'' \<mapsto> Link [''f''], ''h'' \<mapsto> Link [''g'']]"
  by (simp add: chained_def create_file_def link_def state_getitem_def root_node_def initial_def
      new_File_def new_bytesio_def setitem_def File_open_file_def mode_read_def mode_write_def
      fun_eq_iff)

text \<open>
  C7. Let each path of a chain resolve to a link whose source is the next path, and the
  last link's source resolve to a file. Then opening the head of the chain, in any mode,
  is opening that file: the same handle on the same buffer, the same state afterwards
  (one dereference deeper for every link). What is written through the head is read
  from the file's own path, what is written at the file's own path is read through the
  head, and \<^verbatim>\<open>readlink\<close> of every link of the chain returns the next path of the chain,
  its stored source, not the file's path.
\<close>

theorem link_chain_transparent:
  assumes "link_chain k st ps q" "ps \<noteq> []" "state_getitem k st q = Some (NFile nm l b)"
    and "parse_mode wmode = Inr \<lparr>m_activity = Write, m_text = is_text x\<rparr>"
    and "parse_mode rmode = Inr \<lparr>m_activity = Read, m_text = is_text x\<rparr>"
    and "\<forall>t. x = Text t \<longrightarrow> dec (enc t) = t"
  shows "open_file (length ps + k) st (hd ps) mode = open_file k st q mode \<and>
         (\<exists>st1 st2. write_to enc (length ps + k) st (hd ps) wmode x = Some (Inr (), st1) \<and>
            read_from dec k st1 q rmode = Some (Inr x, st2)) \<and>
         (\<exists>st1 st2. write_to enc k st q wmode x = Some (Inr (), st1) \<and>
            read_from dec (length ps + k) st1 (hd ps) rmode = Some (Inr x, st2)) \<and>
         (i < length ps \<longrightarrow> readlink k st (ps ! i) = Some (Inr ((ps @ [q]) ! Suc i), st))"
proof -
  have eq: "open_file (length ps + k) st (hd ps) md = open_file k st q md" for md
    using link_chain_open_file[OF assms(1,2,3)] .
  have w_eq: "write_to enc (length ps + k) st (hd ps) wmode x = write_to enc k st q wmode x"
    by (simp add: write_to_def eq)
  from write_to_effect[OF assms(3) _ assms(4), where x = x and enc = enc and b = b] obtain st1 f where
    w: "write_to enc k st q wmode x = Some (Inr (), st1)"
    "state_getitem k st1 q = Some (NFile nm l f)"
    "bytesio_bytes (s_bufs st1 f) = payload_bytes enc x"
    "\<And>p nm' l' src. state_getitem k st p = Some (NLink nm' l' src) \<Longrightarrow>
        state_getitem k st1 p = Some (NLink nm' l' src)"
    by (auto simp: mode_read_def mode_write_def)
  from read_from_effect[OF w(2) assms(5), where dec = dec] obtain st2 where
    "read_from dec k st1 q rmode =
       Some (Inr (if is_text x then Text (dec (bytesio_bytes (s_bufs st1 f)))
                  else Bytes (bytesio_bytes (s_bufs st1 f))), st2)"
    by (auto simp: mode_read_def)
  moreover have "(if is_text x then Text (dec (bytesio_bytes (s_bufs st1 f)))
                  else Bytes (bytesio_bytes (s_bufs st1 f))) = x"
    using w(3) assms(6) by (cases x) auto
  ultimately have r: "read_from dec k st1 q rmode = Some (Inr x, st2)" by simp
  have ch1: "link_chain k st1 ps q"
    using link_chain_preserved[of k st st1 ps q] w(4) assms(1) by blast
  have "open_file (length ps + k) st1 (hd ps) rmode = open_file k st1 q rmode"
    using link_chain_open_file[OF ch1 assms(2) w(2)] .
  then have r_eq: "read_from dec (length ps + k) st1 (hd ps) rmode = read_from dec k st1 q rmode"
    by (simp add: read_from_def)
  have a: "\<exists>st1 st2. write_to enc (length ps + k) st (hd ps) wmode x = Some (Inr (), st1) \<and>
            read_from dec k st1 q rmode = Some (Inr x, st2)"
    using w(1) r w_eq by auto
  have b: "\<exists>st1 st2. write_to enc k st q wmode x = Some (Inr (), st1) \<and>
            read_from dec (length ps + k) st1 (hd ps) rmode = Some (Inr x, st2)"
    using w(1) r r_eq by auto
  have c: "i < length ps \<longrightarrow> readlink k st (ps ! i) = Some (Inr ((ps @ [q]) ! Suc i), st)"
    using link_chain_readlink[OF assms(1)] by blast
  show ?thesis using eq a b c by blast
qed

theorem link_chain_transparent_witness:
  "link_chain 0 chained [[''h''], [''g'']] [''f''] \<and>
   state_getitem 0 chained [''f''] = Some (NFile ''f'' [] 1) \<and>
   open_file 2 chained [''h''] ''ab'' = open_file 0 chained [''f''] ''ab'' \<and>
   (\<exists>st1 st2. write_to (\<lambda>t. t) 2 chained [''h''] ''wb'' (Bytes ''hello'') = Some (Inr (), st1) \<and>
      read_from (\<lambda>d. d) 0 st1 [''f''] ''rb'' = Some (Inr (Bytes ''hello''), st2)) \<and>
   (\<exists>st1 st2. write_to (\<lambda>t. t) 0 chained [''f''] ''wb'' (Bytes ''hello'') = Some (Inr (), st1) \<and>
      read_from (\<lambda>d. d) 2 st1 [''h''] ''rb'' = Some (Inr (Bytes ''hello''), st2)) \<and>
   readlink 0 chained [''h''] = Some (Inr [''g''], chained)"
proof -
  have h1: "link_chain 0 chained [[''h''], [''g'']] [''f'']"
    by (simp add: state_getitem_def root_node_def chained_root)
  have h2: "[[''h''], [''g'']] \<noteq> ([] :: path list)" by simp
  have h3: "state_getitem 0 chained [''f''] = Some (NFile ''f'' [] 1)"
    by (simp add: state_getitem_def root_node_def chained_root)
  have h4: "parse_mode ''wb'' = Inr \<lparr>m_activity = Write, m_text = is_text (Bytes ''hello'' :: string payload)\<rparr>"
    by (simp add: parse_mode_def)
  have h5: "parse_mode ''rb'' = Inr \<lparr>m_activity = Read, m_text = is_text (Bytes ''hello'' :: string payload)\<rparr>"
    by (simp add: parse_mode_def)
  have h6: "\<forall>t. (Bytes ''hello'' :: string payload) = Text t \<longrightarrow> (\<lambda>d. d) ((\<lambda>t. t) t) = t"
    by simp
  note t = link_chain_transparent [OF h1 h2 h3 h4 h5 h6, where mode = "''ab''" and i = 0]
  show ?thesis using h1 h3 t by (simp add: numeral_2_eq_2)
qed

end
